theory Spec2Isabelle
  imports Main
begin

section \<open>Workout timer: the session state machine of src/App.tsx\<close>

text \<open>
  Timestamps are the integer-valued numbers that \<^verbatim>\<open>Date.now()\<close> returns, and the state
  machine only compares, stores, adds and subtracts them; they are modelled as
  \<^typ>\<open>int\<close>. A field of type \<^verbatim>\<open>number | null\<close> is an \<^typ>\<open>int option\<close>, with
  \<^term>\<open>None\<close> for \<^verbatim>\<open>null\<close>. The formatter divides, so its model spells out the
  rounding of the double.
\<close>

subsection \<open>Numbers\<close>

text \<open>
  A \<^verbatim>\<open>number\<close> is an IEEE 754 double. Every number that \<^verbatim>\<open>msToClock\<close> handles after its
  first division is an integer, so the model keeps integers and writes out where the
  double rounds: when an integer becomes a Number, and when a quotient is formed. Rounding
  is to the nearest value with a 53-bit significand, ties to the even one.
\<close>

text \<open>The number of binary digits of a positive integer.\<close>

function bitlen :: "int \<Rightarrow> nat" where
  "bitlen n = (if n \<le> 0 then 0 else Suc (bitlen (n div 2)))"
  by pat_completeness auto
termination
  by (relation "measure nat") auto

declare bitlen.simps [simp del]

text \<open>\<open>a / b\<close> rounded to the nearest integer, ties to even (\<open>0 \<le> a\<close>, \<open>0 < b\<close>).\<close>

definition roundHalfEven :: "int \<Rightarrow> int \<Rightarrow> int" where
  "roundHalfEven a b =
     (let q = a div b; r = a mod b
      in if b < 2 * r \<or> (2 * r = b \<and> odd q) then q + 1 else q)"

datatype Number = Finite int | PosInfinity | NegInfinity

text \<open>
  The Number nearest to an integer: itself below \<open>2^53\<close>, otherwise its 53 leading bits
  rounded, and an infinity from \<open>2^1024 - 2^970\<close> on.
\<close>

definition toNumber :: "int \<Rightarrow> Number" where
  "toNumber n =
     (let a = \<bar>n\<bar> in
      if a < 2 ^ 53 then Finite n
      else
        let e = bitlen a - 53;
            v = roundHalfEven a (2 ^ e) * 2 ^ e
        in if 2 ^ 1024 \<le> v then (if n < 0 then NegInfinity else PosInfinity)
           else Finite (if n < 0 then - v else v))"

text \<open>
  \<^verbatim>\<open>Math.floor(a / b)\<close> for a finite integer-valued \<open>a\<close> and a positive integer \<open>b\<close>. The
  quotient \<open>m / b\<close> of the magnitudes is the double \<open>r * 2^e\<close>: \<open>e\<close> places the significand
  between \<open>2^52\<close> and \<open>2^53\<close>, and \<open>r\<close> is the quotient at that scale, rounded.
\<close>

definition quotExp :: "int \<Rightarrow> int \<Rightarrow> int" where
  "quotExp m b =
     (let f = int (bitlen m) - int (bitlen b);
          lg = (if (if 0 \<le> f then b * 2 ^ nat f \<le> m else b \<le> m * 2 ^ nat (- f))
                then f else f - 1)
      in lg - 52)"

definition quotSig :: "int \<Rightarrow> int \<Rightarrow> int \<Rightarrow> int" where
  "quotSig m b e =
     (if 0 \<le> e then roundHalfEven m (b * 2 ^ nat e)
      else roundHalfEven (m * 2 ^ nat (- e)) b)"

definition divFloor :: "int \<Rightarrow> int \<Rightarrow> int" where
  "divFloor a b =
     (if a = 0 then 0
      else
        let e = quotExp \<bar>a\<bar> b;
            r = quotSig \<bar>a\<bar> b e;
            sr = (if a < 0 then - r else r)
        in if 0 \<le> e then sr * 2 ^ nat e else sr div 2 ^ nat (- e))"

subsection \<open>Rendering numbers\<close>

definition digit_char :: "nat \<Rightarrow> char" where
  "digit_char d = char_of (48 + d)"

text \<open>The decimal digits of a non-negative integer, most significant first.\<close>

function decimal :: "int \<Rightarrow> string" where
  "decimal n =
     (if n < 10 then [digit_char (nat n)]
      else decimal (n div 10) @ [digit_char (nat (n mod 10))])"
  by pat_completeness auto
termination
  by (relation "measure nat") auto

declare decimal.simps [simp del]

definition string_of_nat :: "nat \<Rightarrow> string" where
  "string_of_nat n = decimal (int n)"

text \<open>
  \<^verbatim>\<open>String(x)\<close> on an integer-valued Number \<open>x \<ge> 2^53\<close> prints the shortest decimal
  \<open>s * 10^(n - k)\<close>, with \<open>k\<close> digits in \<open>s\<close>, that converts back to \<open>x\<close>; among several
  \<open>s\<close> the one nearest to \<open>x\<close>, and the even one of two equally near. \<open>decimalsFor x d k\<close>
  lists the candidates \<open>(s, n)\<close> with \<open>k\<close> digits, where \<open>d\<close> is the number of digits of
  \<open>x\<close>; seventeen digits always suffice.
\<close>

definition decimalsFor :: "int \<Rightarrow> nat \<Rightarrow> nat \<Rightarrow> (int \<times> nat) list" where
  "decimalsFor x d k =
     concat (map (\<lambda>n.
        if n < k then []
        else
          let p = 10 ^ (n - k) in
          filter (\<lambda>(s, n'). 10 ^ (k - 1) \<le> s \<and> s < 10 ^ k \<and> toNumber (s * p) = Finite x)
            [(x div p, n), (x div p + 1, n)]) [d, d + 1])"

definition nearer :: "int \<Rightarrow> nat \<Rightarrow> int \<times> nat \<Rightarrow> int \<times> nat \<Rightarrow> int \<times> nat" where
  "nearer x k c1 c2 =
     (let d1 = \<bar>fst c1 * 10 ^ (snd c1 - k) - x\<bar>;
          d2 = \<bar>fst c2 * 10 ^ (snd c2 - k) - x\<bar>
      in if d2 < d1 \<or> (d2 = d1 \<and> even (fst c2) \<and> odd (fst c1)) then c2 else c1)"

function shortestFrom :: "int \<Rightarrow> nat \<Rightarrow> nat \<Rightarrow> int \<times> nat \<times> nat" where
  "shortestFrom x d k =
     (if 17 < k then (x, d, d)
      else case decimalsFor x d k of
        [] \<Rightarrow> shortestFrom x d (k + 1)
      | c # cs \<Rightarrow> (let (s, n) = foldl (nearer x k) c cs in (s, k, n)))"
  by pat_completeness auto
termination
  by (relation "measure (\<lambda>(x, d, k). 18 - k)") auto

declare shortestFrom.simps [simp del]

definition shortestDecimal :: "int \<Rightarrow> int \<times> nat \<times> nat" where
  "shortestDecimal x = shortestFrom x (length (decimal x)) 1"

text \<open>
  \<^verbatim>\<open>String(x)\<close> on a finite integer-valued Number: all its digits below \<open>2^53\<close>; from there
  on the shortest decimal, filled with zeros up to 21 digits and in exponent notation
  beyond.
\<close>

definition String_of :: "int \<Rightarrow> string" where
  "String_of x =
     (if x < 0 then CHR ''-'' # decimal (- x)
      else if x < 2 ^ 53 then decimal x
      else
        let (s, k, n) = shortestDecimal x;
            ds = decimal s
        in if n \<le> 21 then ds @ replicate (n - k) (CHR ''0'')
           else (if k = 1 then ds else hd ds # CHR ''.'' # tl ds) @ ''e+'' @
                decimal (int n - 1))"

text \<open>\<^verbatim>\<open>s.padStart(n, c)\<close> with a one-character filler.\<close>

definition padStart :: "nat \<Rightarrow> char \<Rightarrow> string \<Rightarrow> string" where
  "padStart n c s = replicate (n - length s) c @ s"

text \<open>Reading a decimal numeral back: the value of a digit string (used to state what
  the formatter renders).\<close>

definition digit_val :: "char \<Rightarrow> int" where
  "digit_val c = int (of_char c) - 48"

definition is_digit :: "char \<Rightarrow> bool" where
  "is_digit c = (48 \<le> (of_char c :: nat) \<and> (of_char c :: nat) \<le> 57)"

definition int_of_digits :: "string \<Rightarrow> int" where
  "int_of_digits s = foldl (\<lambda>acc c. 10 * acc + digit_val c) 0 s"

subsection \<open>msToClock\<close>

text \<open>
  The argument is the integer that the caller's Number stands for. With \<open>+Infinity\<close> the
  seconds are \<^verbatim>\<open>Infinity % 60\<close>, which is \<^verbatim>\<open>NaN\<close>; with \<open>-Infinity\<close> the maximum with 0
  is 0.
\<close>

definition msToClock :: "int \<Rightarrow> string" where
  "msToClock ms =
     (case toNumber ms of
        PosInfinity \<Rightarrow> ''Infinity:NaN''
      | NegInfinity \<Rightarrow> ''0:00''
      | Finite v \<Rightarrow>
          let totalSec = max 0 (divFloor v 1000);
              m = divFloor totalSec 60;
              s = totalSec mod 60
          in String_of m @ '':'' @ padStart 2 (CHR ''0'') (String_of s))"

subsection \<open>Data model\<close>

datatype Phase = READY | IN_SET | IN_REST

record SetLog =
  setStart :: "int option"
  setEnd :: "int option"
  restStart :: "int option"
  restEnd :: "int option"

text \<open>The fields \<^verbatim>\<open>id\<close> and \<^verbatim>\<open>name\<close> of an exercise are \<open>ex_id\<close> and \<open>ex_name\<close> here.\<close>

record Exercise =
  ex_id :: string
  ex_name :: string
  sets :: "SetLog list"

text \<open>The object \<^verbatim>\<open>active\<close>; its fields \<^verbatim>\<open>setStart\<close> and \<^verbatim>\<open>restStart\<close> carry the prefix
  \<open>a_\<close>, the plain names being those of \<^typ>\<open>SetLog\<close>.\<close>

record Active =
  a_setStart :: "int option"
  a_restStart :: "int option"

record Workout =
  startTime :: "int option"
  exerciseStartTime :: "int option"
  endTime :: "int option"
  phase :: Phase
  currentExerciseIndex :: nat
  exercises :: "Exercise list"
  active :: Active

text \<open>
  The guards of the transitions test timestamps by JavaScript truthiness
  (\<^verbatim>\<open>!workout.startTime\<close>, \<^verbatim>\<open>workout.endTime\<close>): \<^verbatim>\<open>null\<close> and the number \<^verbatim>\<open>0\<close> are both
  falsy. The statistics test the fields of a set with \<^verbatim>\<open>!= null\<close> and the end time with
  \<^verbatim>\<open>??\<close>, which only \<^verbatim>\<open>null\<close> fails.
\<close>

definition truthy :: "int option \<Rightarrow> bool" where
  "truthy x = (case x of None \<Rightarrow> False | Some n \<Rightarrow> n \<noteq> 0)"

text \<open>\<^verbatim>\<open>a ?? b\<close>\<close>

definition nullish_or :: "int option \<Rightarrow> int \<Rightarrow> int" where
  "nullish_or a b = (case a of None \<Rightarrow> b | Some v \<Rightarrow> v)"

definition noActive :: Active where
  "noActive = \<lparr>a_setStart = None, a_restStart = None\<rparr>"

definition newWorkout :: Workout where
  "newWorkout =
     \<lparr>startTime = None, exerciseStartTime = None, endTime = None, phase = READY,
      currentExerciseIndex = 0,
      exercises = [\<lparr>ex_id = ''ex-1'', ex_name = ''Exercise 1'', sets = []\<rparr>],
      active = noActive\<rparr>"

text \<open>
  \<^verbatim>\<open>workout.exercises[workout.currentExerciseIndex]\<close> followed by \<^verbatim>\<open>ex.sets\<close>: outside the
  array the read gives \<^verbatim>\<open>undefined\<close> and the property access throws a TypeError.
\<close>

datatype error = TypeError

definition currentExercise :: "Workout \<Rightarrow> error + Exercise" where
  "currentExercise w =
     (if currentExerciseIndex w < length (exercises w)
      then Inr (exercises w ! currentExerciseIndex w) else Inl TypeError)"

text \<open>\<^verbatim>\<open>exercises[workout.currentExerciseIndex] = { ...ex, sets }\<close> on a copy of the array; it
  is only reached after the read above succeeded, so the index is inside the array.\<close>

definition putSets :: "Workout \<Rightarrow> Exercise \<Rightarrow> SetLog list \<Rightarrow> Exercise list" where
  "putSets w ex ss = (exercises w)[currentExerciseIndex w := ex\<lparr>sets := ss\<rparr>]"

text \<open>\<^verbatim>\<open>sets[sets.length - 1] = { ...last, restEnd: v }\<close> on a non-empty array.\<close>

definition setLastRestEnd :: "SetLog list \<Rightarrow> int option \<Rightarrow> SetLog list" where
  "setLastRestEnd ss v = ss[length ss - 1 := (ss ! (length ss - 1))\<lparr>restEnd := v\<rparr>]"

subsection \<open>Statistics\<close>

record Totals =
  workMs :: int
  restMs :: int
  gymMs :: int

text \<open>The inner loop of \<^verbatim>\<open>calcTotals\<close> and \<^verbatim>\<open>exerciseTotals\<close>, over the sets of one
  exercise, with the two running sums.\<close>

fun setsLoop :: "SetLog list \<Rightarrow> int \<times> int \<Rightarrow> int \<times> int" where
  "setsLoop [] acc = acc"
| "setsLoop (s # ss) (wk, rs) =
     setsLoop ss
       (case (setStart s, setEnd s) of (Some a, Some b) \<Rightarrow> wk + (b - a) | _ \<Rightarrow> wk,
        case (restStart s, restEnd s) of (Some a, Some b) \<Rightarrow> rs + (b - a) | _ \<Rightarrow> rs)"

fun exercisesLoop :: "Exercise list \<Rightarrow> int \<times> int \<Rightarrow> int \<times> int" where
  "exercisesLoop [] acc = acc"
| "exercisesLoop (ex # exs) acc = exercisesLoop exs (setsLoop (sets ex) acc)"

text \<open>\<open>nowv\<close> is what \<^verbatim>\<open>now()\<close> returns; it is read only when \<^verbatim>\<open>endTime\<close> is \<^verbatim>\<open>null\<close>.\<close>

definition calcTotals :: "Workout \<Rightarrow> int \<Rightarrow> Totals" where
  "calcTotals w nowv =
     (let (wk, rs) = exercisesLoop (exercises w) (0, 0);
          end = nullish_or (endTime w) nowv;
          gym = (case startTime w of None \<Rightarrow> 0 | Some st \<Rightarrow> if st \<noteq> 0 then end - st else 0)
      in \<lparr>workMs = wk, restMs = rs, gymMs = gym\<rparr>)"

definition exerciseTotals :: "Exercise \<Rightarrow> int \<times> int" where
  "exerciseTotals ex = setsLoop (sets ex) (0, 0)"

definition getSetCountForDisplay :: "Workout \<Rightarrow> error + nat" where
  "getSetCountForDisplay w =
     (case currentExercise w of Inl e \<Rightarrow> Inl e | Inr ex \<Rightarrow> Inr (length (sets ex)))"

subsection \<open>The seven operations\<close>

text \<open>
  Each handler reads the current state and either returns without calling
  \<^verbatim>\<open>setWorkout\<close> (the state stays as it is) or replaces the state. The model takes the
  state and the values that the calls of \<^verbatim>\<open>now()\<close> return, and gives the next state, or
  the TypeError of a read outside \<^verbatim>\<open>exercises\<close>.
\<close>

definition startWorkout :: "Workout \<Rightarrow> int \<Rightarrow> Workout" where
  "startWorkout w t =
     (if truthy (startTime w) then w
      else w\<lparr>startTime := Some t, exerciseStartTime := None, endTime := None,
             phase := READY, active := noActive\<rparr>)"

definition startSet :: "Workout \<Rightarrow> int \<Rightarrow> Workout" where
  "startSet w t =
     (if \<not> truthy (startTime w) \<or> truthy (endTime w) \<or> phase w \<noteq> READY then w
      else
        let shouldStartExerciseTimer = \<not> truthy (exerciseStartTime w)
        in w\<lparr>phase := IN_SET,
              exerciseStartTime := (if shouldStartExerciseTimer then Some t else exerciseStartTime w),
              active := \<lparr>a_setStart = Some t, a_restStart = None\<rparr>\<rparr>)"

definition endSetStartRest :: "Workout \<Rightarrow> int \<Rightarrow> error + Workout" where
  "endSetStartRest w t =
     (if \<not> truthy (startTime w) \<or> truthy (endTime w) \<or> phase w \<noteq> IN_SET then Inr w
      else case currentExercise w of
        Inl e \<Rightarrow> Inl e
      | Inr ex \<Rightarrow>
          let ss = sets ex @
                [\<lparr>setStart = a_setStart (active w), setEnd = Some t,
                  restStart = Some t, restEnd = None\<rparr>]
          in Inr (w\<lparr>exercises := putSets w ex ss, phase := IN_REST,
                     active := \<lparr>a_setStart = None, a_restStart = Some t\<rparr>\<rparr>))"

definition endRestStartSet :: "Workout \<Rightarrow> int \<Rightarrow> error + Workout" where
  "endRestStartSet w t =
     (if \<not> truthy (startTime w) \<or> truthy (endTime w) \<or> phase w \<noteq> IN_REST then Inr w
      else case currentExercise w of
        Inl e \<Rightarrow> Inl e
      | Inr ex \<Rightarrow>
          if length (sets ex) = 0 then Inr w
          else
            let ss = setLastRestEnd (sets ex) (Some t)
            in Inr (w\<lparr>exercises := putSets w ex ss, phase := IN_SET,
                       active := \<lparr>a_setStart = Some t, a_restStart = None\<rparr>\<rparr>))"

text \<open>The first half of \<^verbatim>\<open>nextExercise\<close>: force-finish any active timing.\<close>

definition nextExerciseClose :: "Workout \<Rightarrow> int \<Rightarrow> error + Workout" where
  "nextExerciseClose w t =
     (if phase w = IN_SET then
        (case currentExercise w of
           Inl e \<Rightarrow> Inl e
         | Inr ex \<Rightarrow>
             let ss = sets ex @
                   [\<lparr>setStart = Some (nullish_or (a_setStart (active w)) t), setEnd = Some t,
                     restStart = None, restEnd = None\<rparr>]
             in Inr (w\<lparr>exercises := putSets w ex ss, active := noActive, phase := READY\<rparr>))
      else if phase w = IN_REST then
        (case currentExercise w of
           Inl e \<Rightarrow> Inl e
         | Inr ex \<Rightarrow>
             let w1 = (if length (sets ex) > 0
                       then
                         let last = sets ex ! (length (sets ex) - 1);
                             ss = setLastRestEnd (sets ex) (Some (nullish_or (restEnd last) t))
                         in w\<lparr>exercises := putSets w ex ss\<rparr>
                       else w)
             in Inr (w1\<lparr>active := noActive, phase := READY\<rparr>))
      else Inr w)"

definition freshExercise :: "nat \<Rightarrow> Exercise" where
  "freshExercise n =
     \<lparr>ex_id = ''ex-'' @ string_of_nat (n + 1),
      ex_name = ''Exercise '' @ string_of_nat (n + 1), sets = []\<rparr>"

definition nextExercise :: "Workout \<Rightarrow> int \<Rightarrow> error + Workout" where
  "nextExercise w t =
     (if \<not> truthy (startTime w) \<or> truthy (endTime w) then Inr w
      else case nextExerciseClose w t of
        Inl e \<Rightarrow> Inl e
      | Inr w1 \<Rightarrow>
          let exs = exercises w1 @ [freshExercise (length (exercises w1))]
          in Inr (w1\<lparr>exercises := exs, currentExerciseIndex := length exs - 1,
                      exerciseStartTime := None, phase := READY, active := noActive\<rparr>))"

text \<open>
  \<^verbatim>\<open>finishWorkout\<close> calls \<^verbatim>\<open>now()\<close> up to twice: \<open>t\<close> is the value read inside the branch
  that closes the open interval, \<open>te\<close> the later one stored in \<^verbatim>\<open>endTime\<close>.
\<close>

definition finishClose :: "Workout \<Rightarrow> int \<Rightarrow> error + Workout" where
  "finishClose w t =
     (if phase w = IN_SET then
        (case currentExercise w of
           Inl e \<Rightarrow> Inl e
         | Inr ex \<Rightarrow>
             let ss = sets ex @
                   [\<lparr>setStart = Some (nullish_or (a_setStart (active w)) t), setEnd = Some t,
                     restStart = Some t, restEnd = Some t\<rparr>]
             in Inr (w\<lparr>exercises := putSets w ex ss\<rparr>))
      else if phase w = IN_REST then
        (case currentExercise w of
           Inl e \<Rightarrow> Inl e
         | Inr ex \<Rightarrow>
             if length (sets ex) > 0 then
               let last = sets ex ! (length (sets ex) - 1)
               in if restStart last \<noteq> None \<and> restEnd last = None
                  then Inr (w\<lparr>exercises := putSets w ex (setLastRestEnd (sets ex) (Some t))\<rparr>)
                  else Inr w
             else Inr w)
      else Inr w)"

definition finishWorkout :: "Workout \<Rightarrow> int \<Rightarrow> int \<Rightarrow> error + Workout" where
  "finishWorkout w t te =
     (if \<not> truthy (startTime w) \<or> truthy (endTime w) then Inr w
      else case finishClose w t of
        Inl e \<Rightarrow> Inl e
      | Inr w1 \<Rightarrow> Inr (w1\<lparr>active := noActive, phase := READY, endTime := Some te\<rparr>))"

definition resetAll :: "Workout \<Rightarrow> Workout" where
  "resetAll w = newWorkout"

subsection \<open>Sequences of operations\<close>

datatype Op =
    Start int
  | StartSet int
  | EndSetStartRest int
  | EndRestStartSet int
  | NextExercise int
  | Finish int int
  | Reset

fun step :: "Workout \<Rightarrow> Op \<Rightarrow> error + Workout" where
  "step w (Start t) = Inr (startWorkout w t)"
| "step w (StartSet t) = Inr (startSet w t)"
| "step w (EndSetStartRest t) = endSetStartRest w t"
| "step w (EndRestStartSet t) = endRestStartSet w t"
| "step w (NextExercise t) = nextExercise w t"
| "step w (Finish t te) = finishWorkout w t te"
| "step w Reset = Inr (resetAll w)"

text \<open>A handler that throws leaves the state as it was and the sequence stops there.\<close>

fun run :: "Workout \<Rightarrow> Op list \<Rightarrow> error + Workout" where
  "run w [] = Inr w"
| "run w (o1 # os) = (case step w o1 of Inl e \<Rightarrow> Inl e | Inr w1 \<Rightarrow> run w1 os)"

text \<open>The values the time source returned along a sequence, in the order of the calls.\<close>

fun opTimes :: "Op \<Rightarrow> int list" where
  "opTimes (Start t) = [t]"
| "opTimes (StartSet t) = [t]"
| "opTimes (EndSetStartRest t) = [t]"
| "opTimes (EndRestStartSet t) = [t]"
| "opTimes (NextExercise t) = [t]"
| "opTimes (Finish t te) = [t, te]"
| "opTimes Reset = []"

definition clock :: "Op list \<Rightarrow> int list" where
  "clock os = concat (map opTimes os)"

subsection \<open>Invariants of the reachable states\<close>

text \<open>The open interval matches the phase: none while READY, the set's start while
  IN_SET, the rest's start while IN_REST.\<close>

definition activeMatches :: "Workout \<Rightarrow> bool" where
  "activeMatches w =
     (case phase w of
        READY \<Rightarrow> a_setStart (active w) = None \<and> a_restStart (active w) = None
      | IN_SET \<Rightarrow> a_setStart (active w) \<noteq> None \<and> a_restStart (active w) = None
      | IN_REST \<Rightarrow> a_setStart (active w) = None \<and> a_restStart (active w) \<noteq> None)"

text \<open>The current exercise is the last one of a non-empty list.\<close>

definition currentIsLast :: "Workout \<Rightarrow> bool" where
  "currentIsLast w = (Suc (currentExerciseIndex w) = length (exercises w))"

subsection \<open>Time accounted for by the log\<close>

text \<open>The lifting and resting time of one set, as the summary screen computes them
  (\<^verbatim>\<open>liftMs\<close> and \<^verbatim>\<open>restMs\<close>): a difference when both ends are there, otherwise zero.\<close>

definition setLiftMs :: "SetLog \<Rightarrow> int" where
  "setLiftMs s = (case (setStart s, setEnd s) of (Some a, Some b) \<Rightarrow> b - a | _ \<Rightarrow> 0)"

definition setRestMs :: "SetLog \<Rightarrow> int" where
  "setRestMs s = (case (restStart s, restEnd s) of (Some a, Some b) \<Rightarrow> b - a | _ \<Rightarrow> 0)"

definition exerciseMs :: "Exercise \<Rightarrow> int" where
  "exerciseMs ex = sum_list (map (\<lambda>s. setLiftMs s + setRestMs s) (sets ex))"

definition accounted :: "Workout \<Rightarrow> int" where
  "accounted w = sum_list (map exerciseMs (exercises w))"

text \<open>The last set of the list has a rest that started at \<open>r\<close> and has not ended.\<close>

definition openRest :: "int \<Rightarrow> SetLog list \<Rightarrow> bool" where
  "openRest r ss = (ss \<noteq> [] \<and> restStart (last ss) = Some r \<and> restEnd (last ss) = None)"

text \<open>
  The accounting invariant, for a clock that has reached \<open>T\<close>: before the session starts
  (no start time, or the start time 0 that the guards take for none) nothing is logged; once it has started at \<open>st\<close>, the logged time fits between \<open>st\<close>
  and the start of the interval that is open (or \<open>T\<close>, when none is), and after the end
  it fits between \<open>st\<close> and the end.
\<close>

definition timed :: "int \<Rightarrow> Workout \<Rightarrow> bool" where
  "timed T w =
     (currentIsLast w \<and>
      (case startTime w of
         None \<Rightarrow> accounted w = 0
       | Some st \<Rightarrow>
           (if st = 0 then accounted w = 0
            else
              (case endTime w of
                 Some e \<Rightarrow> e \<noteq> 0 \<and> accounted w \<le> e - st
               | None \<Rightarrow>
                   (case phase w of
                      READY \<Rightarrow> accounted w \<le> T - st
                    | IN_SET \<Rightarrow>
                        (case a_setStart (active w) of
                           None \<Rightarrow> False
                         | Some a \<Rightarrow> a \<le> T \<and> accounted w \<le> a - st)
                    | IN_REST \<Rightarrow>
                        (case a_restStart (active w) of
                           None \<Rightarrow> False
                         | Some r \<Rightarrow> r \<le> T \<and> accounted w \<le> r - st \<and>
                             openRest r (sets (last (exercises w)))))))))"


section \<open>The duration formatter\<close>

subsection \<open>Rounding\<close>

lemma bitlen_pos: "0 < n \<Longrightarrow> bitlen n = Suc (bitlen (n div 2))"
  by (simp add: bitlen.simps [of n])

lemma bitlen_nonpos: "n \<le> 0 \<Longrightarrow> bitlen n = 0"
  by (simp add: bitlen.simps [of n])

lemma bitlen_upper: "0 \<le> n \<Longrightarrow> n < 2 ^ bitlen n"
proof (induction n rule: bitlen.induct)
  case (1 n)
  show ?case
  proof (cases "n \<le> 0")
    case True
    with "1.prems" show ?thesis by (simp add: bitlen_nonpos)
  next
    case False
    then have "n div 2 < 2 ^ bitlen (n div 2)" using "1.IH" by simp
    then have "n < 2 * 2 ^ bitlen (n div 2)" by linarith
    with False show ?thesis by (simp add: bitlen_pos)
  qed
qed

lemma bitlen_lower: "0 < n \<Longrightarrow> 2 ^ (bitlen n - 1) \<le> n"
proof (induction n rule: bitlen.induct)
  case (1 n)
  show ?case
  proof (cases "n div 2 \<le> 0")
    case True
    with "1.prems" show ?thesis by (simp add: bitlen_pos bitlen_nonpos)
  next
    case False
    then have h: "2 ^ (bitlen (n div 2) - 1) \<le> n div 2" using "1.IH" "1.prems" by simp
    have "bitlen (n div 2) = Suc (bitlen (n div 2) - 1)"
      using False by (simp add: bitlen_pos [of "n div 2"])
    then have "(2::int) ^ bitlen (n div 2) = 2 * 2 ^ (bitlen (n div 2) - 1)"
      by (metis power_Suc)
    with h have "2 ^ bitlen (n div 2) \<le> n" by linarith
    with "1.prems" show ?thesis by (simp add: bitlen_pos)
  qed
qed

lemma bitlen_le: assumes "0 \<le> n" "n < 2 ^ k" shows "bitlen n \<le> k"
proof (cases "n = 0")
  case True
  then show ?thesis by (simp add: bitlen_nonpos)
next
  case False
  then have "0 < n" using assms by simp
  then have "(2::int) ^ (bitlen n - 1) < 2 ^ k" using bitlen_lower [of n] assms by linarith
  then have "bitlen n - 1 < k" by simp
  then show ?thesis by simp
qed

lemma roundHalfEven_ge: "0 < b \<Longrightarrow> a div b \<le> roundHalfEven a b"
  by (simp add: roundHalfEven_def Let_def)

lemma roundHalfEven_le: "0 < b \<Longrightarrow> roundHalfEven a b \<le> a div b + 1"
  by (simp add: roundHalfEven_def Let_def)

text \<open>Scaled by \<open>2^j\<close> with \<open>b < 2^(j+1)\<close>, rounding cannot reach the next integer.\<close>

lemma round_div_exact:
  assumes "0 \<le> a" "0 < b" "b < 2 ^ Suc j"
  shows "roundHalfEven (a * 2 ^ j) b div 2 ^ j = a div b"
proof -
  define P :: int where "P = 2 ^ j"
  have P: "0 < P" by (simp add: P_def)
  define k c where "k = a div b" and "c = a mod b"
  have a: "a = k * b + c" and c: "0 \<le> c" "c < b"
    using assms(2) by (simp_all add: k_def c_def)
  define F where "F = (c * P) div b"
  define R where "R = (c * P) mod b"
  have cp: "c * P = F * b + R" and R: "0 \<le> R" "R < b"
    using assms(2) by (simp_all add: F_def R_def)
  have F0: "0 \<le> F" using c P assms(2) by (simp add: F_def pos_imp_zdiv_nonneg_iff)
  have eq: "a * P = R + (k * P + F) * b"
    using a cp by (simp add: algebra_simps)
  have dq: "(a * P) div b = k * P + F" and dr: "(a * P) mod b = R"
    unfolding eq using R assms(2) by simp_all
  have Fb: "F * b \<le> (b - 1) * P" using cp R c P by (smt (verit) mult_right_mono)
  have Flt: "F < P"
  proof (rule ccontr)
    assume "\<not> F < P"
    then have "P * b \<le> F * b" using assms(2) by simp
    with Fb have "P * b \<le> (b - 1) * P" by linarith
    then show False using P by (simp add: algebra_simps)
  qed
  have up: "F + 1 < P" if "b \<le> 2 * R"
  proof (rule ccontr)
    assume "\<not> F + 1 < P"
    with Flt have "F = P - 1" by simp
    then have "(P - 1) * b + R \<le> (b - 1) * P" using cp c P
      by (smt (verit) mult_right_mono)
    then have "2 * R \<le> 2 * b - 2 * P" by (simp add: algebra_simps)
    with that have "2 * P \<le> b" by linarith
    then show False using assms(3) by (simp add: P_def)
  qed
  have "roundHalfEven (a * P) b = k * P + F \<or>
        (roundHalfEven (a * P) b = k * P + F + 1 \<and> b \<le> 2 * R)"
    unfolding roundHalfEven_def Let_def dq dr by auto
  then have "\<exists>G. roundHalfEven (a * P) b = k * P + G \<and> 0 \<le> G \<and> G < P"
    using Flt up F0 by (metis add.assoc add_increasing2 zero_le_one)
  then obtain G where G: "roundHalfEven (a * P) b = G + k * P" "0 \<le> G" "G < P"
    by (auto simp: add.commute)
  have "(G + k * P) div P = k" using G P by simp
  then show ?thesis using G by (simp add: P_def k_def)
qed


lemma quotExp_le: "quotExp m b \<le> int (bitlen m) - int (bitlen b) - 52"
  by (simp add: quotExp_def Let_def)

text \<open>Below \<open>2^53\<close> the rounded quotient has the integer quotient as its floor.\<close>

lemma divFloor_exact:
  assumes "0 \<le> a" "a < 2 ^ 53" "2 \<le> b"
  shows "divFloor a b = a div b"
proof (cases "a = 0")
  case True
  then show ?thesis by (simp add: divFloor_def)
next
  case False
  then have pos: "0 < a" using assms(1) by simp
  define e where "e = quotExp a b"
  have "bitlen a \<le> 53" using bitlen_le [OF assms(1,2)] .
  then have e: "e \<le> 1 - int (bitlen b)" using quotExp_le [of a b] by (simp add: e_def)
  have bpos: "0 < b" using assms(3) by simp
  have "0 < b div 2" using assms(3) by simp
  then have "0 < bitlen (b div 2)" by (simp add: bitlen_pos)
  then have "2 \<le> bitlen b" using bpos by (simp add: bitlen_pos [of b])
  with e have neg: "e < 0" by simp
  define j where "j = nat (- e)"
  have "bitlen b \<le> Suc j" using e by (simp add: j_def)
  then have "(2::int) ^ bitlen b \<le> 2 ^ Suc j" by (rule power_increasing) simp
  then have b: "b < 2 ^ Suc j" using bitlen_upper [of b] bpos by linarith
  have "divFloor a b = roundHalfEven (a * 2 ^ j) b div 2 ^ j"
    using pos neg by (simp add: divFloor_def quotSig_def Let_def e_def [symmetric] j_def)
  then show ?thesis using round_div_exact [OF assms(1) bpos b] by simp
qed

text \<open>The quotient of a negative number is negative, and so is its floor.\<close>

lemma quotSig_positive:
  assumes "0 < m" "0 < b"
  shows "0 < quotSig m b (quotExp m b)"
proof -
  define e where "e = quotExp m b"
  have le: "e \<le> int (bitlen m) - int (bitlen b) - 52"
    using quotExp_le [of m b] by (simp add: e_def)
  have bl: "0 < bitlen b" "0 < bitlen m" using assms by (simp_all add: bitlen_pos)
  have mlow: "2 ^ (bitlen m - 1) \<le> m" using bitlen_lower [OF assms(1)] .
  have bup: "b < 2 ^ bitlen b" using bitlen_upper [of b] assms(2) by simp
  have "0 < quotSig m b e"
  proof (cases "0 \<le> e")
    case True
    then have "bitlen b + nat e \<le> bitlen m - 1" using le by linarith
    then have "(2::int) ^ (bitlen b + nat e) \<le> 2 ^ (bitlen m - 1)"
      by (rule power_increasing) simp
    then have "2 ^ bitlen b * 2 ^ nat e \<le> m" using mlow by (simp add: power_add)
    moreover have "b * 2 ^ nat e \<le> 2 ^ bitlen b * 2 ^ nat e"
      using bup by (simp add: mult_right_mono)
    ultimately have "b * 2 ^ nat e \<le> m" by linarith
    moreover have d: "0 < b * 2 ^ nat e" using assms(2) by simp
    ultimately have "0 < m div (b * 2 ^ nat e)"
      by (simp only: pos_imp_zdiv_pos_iff)
    then show ?thesis
      using True roundHalfEven_ge [OF d, of m] by (simp add: quotSig_def)
  next
    case False
    have "bitlen b \<le> (bitlen m - 1) + nat (- e)"
      using False le bl by linarith
    then have "(2::int) ^ bitlen b \<le> 2 ^ ((bitlen m - 1) + nat (- e))"
      by (rule power_increasing) simp
    also have "\<dots> \<le> m * 2 ^ nat (- e)"
      using mlow by (simp add: power_add mult_right_mono)
    finally have "b \<le> m * 2 ^ nat (- e)" using bup by linarith
    then have "0 < (m * 2 ^ nat (- e)) div b"
      using assms(2) by (simp only: pos_imp_zdiv_pos_iff)
    then show ?thesis
      using False roundHalfEven_ge [OF assms(2), of "m * 2 ^ nat (- e)"]
      by (simp add: quotSig_def)
  qed
  then show ?thesis by (simp add: e_def)
qed

lemma divFloor_negative:
  assumes "a < 0" "0 < b"
  shows "divFloor a b < 0"
proof -
  define e where "e = quotExp \<bar>a\<bar> b"
  define r where "r = quotSig \<bar>a\<bar> b e"
  have r: "0 < r" using quotSig_positive [of "\<bar>a\<bar>" b] assms by (simp add: r_def e_def)
  have d: "divFloor a b = (if 0 \<le> e then - r * 2 ^ nat e else - r div 2 ^ nat (- e))"
    using assms(1) by (simp add: divFloor_def Let_def e_def r_def)
  show ?thesis
  proof (cases "0 \<le> e")
    case True
    then show ?thesis using d r by (simp add: mult_neg_pos)
  next
    case False
    have "- r div 2 ^ nat (- e) < 0" using r by (simp add: div_neg_pos_less0)
    then show ?thesis using d False by simp
  qed
qed

text \<open>A negative integer becomes a negative Number or \<open>-Infinity\<close>.\<close>

lemma toNumber_negative:
  assumes "n < 0"
  shows "toNumber n = NegInfinity \<or> (\<exists>v. toNumber n = Finite v \<and> v < 0)"
proof (cases "\<bar>n\<bar> < 2 ^ 53")
  case True
  then show ?thesis using assms by (simp add: toNumber_def)
next
  case False
  define a where "a = \<bar>n\<bar>"
  define e where "e = bitlen a - 53"
  have a: "0 < a" using assms by (simp add: a_def)
  have "e \<le> bitlen a - 1" by (simp add: e_def)
  then have "(2::int) ^ e \<le> 2 ^ (bitlen a - 1)" by (rule power_increasing) simp
  then have "2 ^ e \<le> a" using bitlen_lower [OF a] by linarith
  then have "0 < a div 2 ^ e" by (simp only: pos_imp_zdiv_pos_iff zero_less_power zero_less_numeral)
  then have "0 < roundHalfEven a (2 ^ e)"
    using roundHalfEven_ge [of "2 ^ e" a] by simp
  then have "0 < roundHalfEven a (2 ^ e) * 2 ^ e" by simp
  then show ?thesis
    using False assms
    by (simp add: toNumber_def Let_def a_def [symmetric] e_def [symmetric])
qed

lemma toNumber_safe: "\<bar>n\<bar> < 2 ^ 53 \<Longrightarrow> toNumber n = Finite n"
  by (simp add: toNumber_def)


subsection \<open>Decimal numerals\<close>

lemma digit_val_digit_char: "d < 10 \<Longrightarrow> digit_val (digit_char d) = int d"
  by (simp add: digit_val_def digit_char_def)

lemma is_digit_digit_char: "d < 10 \<Longrightarrow> is_digit (digit_char d)"
  by (simp add: is_digit_def digit_char_def)

lemma int_of_digits_snoc: "int_of_digits (s @ [c]) = 10 * int_of_digits s + digit_val c"
  by (simp add: int_of_digits_def)

lemma decimal_small: "n < 10 \<Longrightarrow> decimal n = [digit_char (nat n)]"
  by (simp add: decimal.simps [of n])

lemma decimal_step:
  "10 \<le> n \<Longrightarrow> decimal n = decimal (n div 10) @ [digit_char (nat (n mod 10))]"
  by (simp add: decimal.simps [of n])

lemma int_of_digits_decimal: "0 \<le> n \<Longrightarrow> int_of_digits (decimal n) = n"
proof (induction n rule: decimal.induct)
  case (1 n)
  show ?case
  proof (cases "n < 10")
    case True
    with "1.prems" show ?thesis
      by (simp add: decimal_small int_of_digits_def digit_val_digit_char)
  next
    case False
    then have "int_of_digits (decimal (n div 10)) = n div 10"
      using "1.IH" "1.prems" by simp
    moreover have "nat (n mod 10) < 10" by simp
    ultimately show ?thesis
      using False by (simp add: decimal_step int_of_digits_snoc digit_val_digit_char)
  qed
qed

lemma digits_decimal: "list_all is_digit (decimal n)"
proof (induction n rule: decimal.induct)
  case (1 n)
  show ?case
  proof (cases "n < 10")
    case True
    then show ?thesis by (simp add: decimal_small is_digit_digit_char)
  next
    case False
    moreover have "nat (n mod 10) < 10" by simp
    ultimately show ?thesis
      using "1.IH" by (simp add: decimal_step is_digit_digit_char)
  qed
qed

lemma length_decimal_small: "n < 10 \<Longrightarrow> length (decimal n) = 1"
  by (simp add: decimal_small)

lemma length_decimal_two: "10 \<le> n \<Longrightarrow> n < 100 \<Longrightarrow> length (decimal n) = 2"
  by (simp add: decimal_step length_decimal_small)

lemma decimal_0: "decimal 0 = ''0''"
  by code_simp

lemma padded_0: "padStart 2 (CHR ''0'') ''0'' = ''00''"
  by code_simp

lemma int_of_digits_zero_cons: "int_of_digits (CHR ''0'' # s) = int_of_digits s"
  by (simp add: int_of_digits_def digit_val_def)

lemma is_digit_zero: "is_digit (CHR ''0'')"
  by (simp add: is_digit_def)

lemma pad2_length: "n < 100 \<Longrightarrow> length (padStart 2 (CHR ''0'') (decimal n)) = 2"
  by (cases "n < 10") (simp_all add: padStart_def length_decimal_small length_decimal_two)

lemma pad2_value:
  "0 \<le> n \<Longrightarrow> n < 100 \<Longrightarrow> int_of_digits (padStart 2 (CHR ''0'') (decimal n)) = n"
  by (cases "n < 10")
     (simp_all add: padStart_def length_decimal_small length_decimal_two
        int_of_digits_zero_cons int_of_digits_decimal)

lemma pad2_digits: "n < 100 \<Longrightarrow> list_all is_digit (padStart 2 (CHR ''0'') (decimal n))"
  by (cases "n < 10")
     (simp_all add: padStart_def length_decimal_small length_decimal_two
        digits_decimal is_digit_zero)

lemma String_of_safe: "0 \<le> x \<Longrightarrow> x < 2 ^ 53 \<Longrightarrow> String_of x = decimal x"
  by (simp add: String_of_def)

subsection \<open>What msToClock renders\<close>

text \<open>On the integers from 0 up to \<open>2^53\<close> every step of \<^verbatim>\<open>msToClock\<close> is exact.\<close>

lemma msToClock_safe:
  assumes "0 \<le> n" "n < 2 ^ 53"
  shows "msToClock n =
     decimal (n div 60000) @ '':'' @ padStart 2 (CHR ''0'') (decimal ((n div 1000) mod 60))"
proof -
  have num: "toNumber n = Finite n" using assms by (simp add: toNumber_safe)
  have q: "divFloor n 1000 = n div 1000" using assms by (simp add: divFloor_exact)
  have t0: "0 \<le> n div 1000" using assms(1) by simp
  have "n div 1000 \<le> n div 1" using assms(1) by (intro zdiv_mono2) simp_all
  then have t1: "n div 1000 < 2 ^ 53" using assms(2) by simp
  have m: "divFloor (n div 1000) 60 = n div 60000"
    using t0 t1 by (simp add: divFloor_exact div_mult2_eq [symmetric])
  have m0: "0 \<le> n div 60000" using assms(1) by simp
  have "n div 60000 \<le> n div 1" using assms(1) by (intro zdiv_mono2) simp_all
  then have m1: "n div 60000 < 2 ^ 53" using assms(2) by simp
  have s0: "0 \<le> n div 1000 mod 60" by simp
  have s1: "n div 1000 mod 60 < 2 ^ 53"
    by (rule less_trans [of _ 60]) simp_all
  show ?thesis
    using t0 by (simp add: msToClock_def num q m Let_def max_def
          String_of_safe [OF m0 m1] String_of_safe [OF s0 s1])
qed

text \<open>
  Claim C8, amended. The formatter maps 0 ms to "0:00", 59000 ms to "0:59", 60000 ms to
  "1:00" and 3661000 ms to "61:01". For every integer duration \<open>n\<close> with
  \<open>0 \<le> n < 2^53\<close> the result is the decimal numeral of \<open>n div 60000\<close> (all the minutes,
  never reduced to hours), a colon, and exactly two digits whose value is the remaining
  seconds \<open>(n div 1000) mod 60\<close>.
\<close>

theorem C8_msToClock_safe_format:
  "msToClock 0 = ''0:00'' \<and> msToClock 59000 = ''0:59'' \<and>
   msToClock 60000 = ''1:00'' \<and> msToClock 3661000 = ''61:01'' \<and>
   (\<forall>n. 0 \<le> n \<and> n < 2 ^ 53 \<longrightarrow>
      (\<exists>mm ss. msToClock n = mm @ '':'' @ ss \<and>
         mm = decimal (n div 60000) \<and>
         list_all is_digit mm \<and> int_of_digits mm = n div 60000 \<and>
         length ss = 2 \<and> list_all is_digit ss \<and>
         int_of_digits ss = (n div 1000) mod 60))"
proof (intro conjI allI impI)
  show "msToClock 0 = ''0:00''" by code_simp
  show "msToClock 59000 = ''0:59''" by code_simp
  show "msToClock 60000 = ''1:00''" by code_simp
  show "msToClock 3661000 = ''61:01''" by code_simp
next
  fix n :: int
  assume "0 \<le> n \<and> n < 2 ^ 53"
  then have n: "0 \<le> n" "n < 2 ^ 53" by simp_all
  let ?m = "n div 60000" and ?s = "(n div 1000) mod 60"
  have s: "0 \<le> ?s" "?s < 100" by simp_all
  have m0: "0 \<le> ?m" using n(1) by simp
  show "\<exists>mm ss. msToClock n = mm @ '':'' @ ss \<and>
         mm = decimal (n div 60000) \<and>
         list_all is_digit mm \<and> int_of_digits mm = n div 60000 \<and>
         length ss = 2 \<and> list_all is_digit ss \<and>
         int_of_digits ss = (n div 1000) mod 60"
    apply (rule exI [of _ "decimal ?m"])
    apply (rule exI [of _ "padStart 2 (CHR ''0'') (decimal ?s)"])
    using s m0
    by (simp add: msToClock_safe [OF n] digits_decimal int_of_digits_decimal
          pad2_length pad2_value pad2_digits)
qed

text \<open>The general part at two hours, two minutes and five seconds.\<close>

theorem C8_msToClock_safe_format_witness:
  "(0::int) \<le> 7325000 \<and> (7325000::int) < 2 ^ 53 \<and>
   (\<exists>mm ss. msToClock 7325000 = mm @ '':'' @ ss \<and>
         mm = decimal (7325000 div 60000) \<and>
         list_all is_digit mm \<and> int_of_digits mm = 7325000 div 60000 \<and>
         length ss = 2 \<and> list_all is_digit ss \<and>
         int_of_digits ss = (7325000 div 1000) mod 60) \<and>
   msToClock 7325000 = ''122:05''"
proof -
  have "msToClock 7325000 = ''122:05''" by code_simp
  moreover have "(0::int) \<le> 7325000 \<and> (7325000::int) < 2 ^ 53" by simp
  ultimately show ?thesis
    using C8_msToClock_safe_format by blast
qed

text \<open>
  Claim C8 as it is stated, for every \<open>n \<ge> 0\<close> however large, fails beyond the integers
  that a double holds exactly. At \<open>2^64\<close> ms the quotient by 1000 is rounded up and the
  seconds read 52 where \<open>(n div 1000) mod 60\<close> is 51; at \<open>2^86\<close> ms the minutes are printed
  in exponent notation, not as the numeral of \<open>n div 60000\<close>.
\<close>

theorem C8_msToClock_beyond_doubles:
  "msToClock 18446744073709551616 = ''307445734561825:52'' \<and>
   (18446744073709551616 div 1000) mod 60 = (51 :: int) \<and>
   msToClock 77371252455336267181195264 = ''1.2895208742556045e+21:28'' \<and>
   77371252455336267181195264 div 60000 = (1289520874255604453019 :: int)"
proof (intro conjI)
  show "msToClock 18446744073709551616 = ''307445734561825:52''" by code_simp
  show "(18446744073709551616 div 1000) mod 60 = (51 :: int)" by simp
  show "msToClock 77371252455336267181195264 = ''1.2895208742556045e+21:28''" by code_simp
  show "77371252455336267181195264 div 60000 = (1289520874255604453019 :: int)" by simp
qed

text \<open>
  Claim C10. Every negative duration is clamped to zero: \<open>msToClock\<close> returns "0:00".
\<close>

theorem C10_msToClock_negative: "ms < 0 \<Longrightarrow> msToClock ms = ''0:00''"
proof -
  assume neg: "ms < 0"
  from toNumber_negative [OF neg] show ?thesis
  proof
    assume "toNumber ms = NegInfinity"
    then show ?thesis by (simp add: msToClock_def)
  next
    assume "\<exists>v. toNumber ms = Finite v \<and> v < 0"
    then obtain v where v: "toNumber ms = Finite v" "v < 0" by blast
    have "divFloor v 1000 < 0" using v(2) by (simp add: divFloor_negative)
    then have "max 0 (divFloor v 1000) = 0" by simp
    moreover have "divFloor 0 60 = 0" by (simp add: divFloor_def)
    moreover have "String_of 0 = ''0''" by (simp add: String_of_def decimal_0)
    ultimately show ?thesis
      using v(1) by (simp add: msToClock_def Let_def padded_0)
  qed
qed

text \<open>C10 at one millisecond and at one hour before zero.\<close>

theorem C10_msToClock_negative_witness:
  "(-1 :: int) < 0 \<and> msToClock (-1) = ''0:00'' \<and> msToClock (-3600000) = ''0:00''"
  using C10_msToClock_negative [of "-1"] C10_msToClock_negative [of "-3600000"] by simp


section \<open>The state machine\<close>

subsection \<open>Every operation keeps the invariants and returns\<close>

lemma currentExercise_last:
  "currentIsLast w \<Longrightarrow> currentExercise w = Inr (exercises w ! currentExerciseIndex w)"
  by (auto simp: currentIsLast_def currentExercise_def)

lemma startWorkout_inv:
  "activeMatches w \<Longrightarrow> currentIsLast w \<Longrightarrow>
   activeMatches (startWorkout w t) \<and> currentIsLast (startWorkout w t)"
  by (auto simp: startWorkout_def activeMatches_def currentIsLast_def noActive_def split: Phase.splits)

lemma startSet_inv:
  "activeMatches w \<Longrightarrow> currentIsLast w \<Longrightarrow>
   activeMatches (startSet w t) \<and> currentIsLast (startSet w t)"
  by (auto simp: startSet_def activeMatches_def currentIsLast_def Let_def split: Phase.splits)

lemma endSetStartRest_inv:
  assumes "activeMatches w" "currentIsLast w"
  shows "\<exists>w'. endSetStartRest w t = Inr w' \<and> activeMatches w' \<and> currentIsLast w'"
  using assms currentExercise_last [OF assms(2)]
  by (auto simp: endSetStartRest_def activeMatches_def currentIsLast_def putSets_def Let_def split: Phase.splits)

lemma endRestStartSet_inv:
  assumes "activeMatches w" "currentIsLast w"
  shows "\<exists>w'. endRestStartSet w t = Inr w' \<and> activeMatches w' \<and> currentIsLast w'"
  using assms currentExercise_last [OF assms(2)]
  by (auto simp: endRestStartSet_def activeMatches_def currentIsLast_def putSets_def Let_def split: Phase.splits)

lemma nextExerciseClose_inv:
  assumes "currentIsLast w"
  shows "\<exists>w'. nextExerciseClose w t = Inr w' \<and> length (exercises w') = length (exercises w)"
  using assms currentExercise_last [OF assms]
  by (simp add: nextExerciseClose_def putSets_def Let_def)

lemma nextExercise_inv:
  assumes "activeMatches w" "currentIsLast w"
  shows "\<exists>w'. nextExercise w t = Inr w' \<and> activeMatches w' \<and> currentIsLast w'"
proof -
  obtain w1 where "nextExerciseClose w t = Inr w1"
    using nextExerciseClose_inv [OF assms(2)] by blast
  then show ?thesis
    using assms
    by (auto simp: nextExercise_def activeMatches_def currentIsLast_def noActive_def Let_def split: Phase.splits)
qed

lemma finishClose_inv:
  assumes "currentIsLast w"
  shows "\<exists>w'. finishClose w t = Inr w' \<and> length (exercises w') = length (exercises w)
           \<and> currentExerciseIndex w' = currentExerciseIndex w"
  using assms currentExercise_last [OF assms]
  by (simp add: finishClose_def putSets_def Let_def)

lemma finishWorkout_inv:
  assumes "activeMatches w" "currentIsLast w"
  shows "\<exists>w'. finishWorkout w t te = Inr w' \<and> activeMatches w' \<and> currentIsLast w'"
proof -
  obtain w1 where "finishClose w t = Inr w1" "length (exercises w1) = length (exercises w)"
      "currentExerciseIndex w1 = currentExerciseIndex w"
    using finishClose_inv [OF assms(2)] by blast
  then show ?thesis
    using assms
    by (auto simp: finishWorkout_def activeMatches_def currentIsLast_def noActive_def split: Phase.splits)
qed

lemma newWorkout_inv: "activeMatches newWorkout \<and> currentIsLast newWorkout"
  by (simp add: newWorkout_def activeMatches_def currentIsLast_def noActive_def)

lemma step_inv:
  assumes "activeMatches w" "currentIsLast w"
  shows "\<exists>w'. step w opn = Inr w' \<and> activeMatches w' \<and> currentIsLast w'"
proof (cases opn)
  case (Start t)
  then show ?thesis using startWorkout_inv [OF assms] by simp
next
  case (StartSet t)
  then show ?thesis using startSet_inv [OF assms] by simp
next
  case (EndSetStartRest t)
  then show ?thesis using endSetStartRest_inv [OF assms] by simp
next
  case (EndRestStartSet t)
  then show ?thesis using endRestStartSet_inv [OF assms] by simp
next
  case (NextExercise t)
  then show ?thesis using nextExercise_inv [OF assms] by simp
next
  case (Finish t te)
  then show ?thesis using finishWorkout_inv [OF assms] by simp
next
  case Reset
  then show ?thesis using newWorkout_inv by (simp add: resetAll_def)
qed

lemma run_inv:
  "activeMatches w \<Longrightarrow> currentIsLast w \<Longrightarrow>
   \<exists>w'. run w os = Inr w' \<and> activeMatches w' \<and> currentIsLast w'"
proof (induction os arbitrary: w)
  case Nil
  then show ?case by simp
next
  case (Cons o1 os)
  obtain w1 where s: "step w o1 = Inr w1" "activeMatches w1" "currentIsLast w1"
    using step_inv [OF Cons.prems] by blast
  show ?case using Cons.IH [OF s(2,3)] s(1) by simp
qed

text \<open>No sequence of operations from the initial state throws.\<close>

lemma run_newWorkout_returns: "\<exists>w. run newWorkout os = Inr w"
  using run_inv [of newWorkout os] newWorkout_inv by blast

text \<open>
  Claim C1. In every state reached from the initial one by any sequence of the seven
  operations (with any timestamps), the phase is READY exactly when both
  \<open>active.setStart\<close> and \<open>active.restStart\<close> are absent, and while the phase is IN_SET
  or IN_REST exactly one of the two is present.
\<close>

theorem C1_phase_matches_active:
  "run newWorkout os = Inr w \<Longrightarrow>
   (phase w = READY \<longleftrightarrow>
      a_setStart (active w) = None \<and> a_restStart (active w) = None) \<and>
   (phase w = IN_SET \<or> phase w = IN_REST \<longrightarrow>
      (a_setStart (active w) = None) \<noteq> (a_restStart (active w) = None))"
proof -
  assume r: "run newWorkout os = Inr w"
  have "activeMatches w"
    using run_inv [of newWorkout os] newWorkout_inv r by auto
  then show ?thesis
    by (cases "phase w") (auto simp: activeMatches_def)
qed

text \<open>C1 on a state that is resting after its first set.\<close>

theorem C1_phase_matches_active_witness:
  "run newWorkout [Start 1000, StartSet 2000, EndSetStartRest 3000] =
     Inr \<lparr>startTime = Some 1000, exerciseStartTime = Some 2000, endTime = None,
          phase = IN_REST, currentExerciseIndex = 0,
          exercises = [\<lparr>ex_id = ''ex-1'', ex_name = ''Exercise 1'',
             sets = [\<lparr>setStart = Some 2000, setEnd = Some 3000,
                      restStart = Some 3000, restEnd = None\<rparr>]\<rparr>],
          active = \<lparr>a_setStart = None, a_restStart = Some 3000\<rparr>\<rparr> \<and>
   IN_REST \<noteq> READY \<and> ((None :: int option) = None) \<noteq> (Some (3000 :: int) = None)"
proof -
  have r: "run newWorkout [Start 1000, StartSet 2000, EndSetStartRest 3000] =
     Inr \<lparr>startTime = Some 1000, exerciseStartTime = Some 2000, endTime = None,
          phase = IN_REST, currentExerciseIndex = 0,
          exercises = [\<lparr>ex_id = ''ex-1'', ex_name = ''Exercise 1'',
             sets = [\<lparr>setStart = Some 2000, setEnd = Some 3000,
                      restStart = Some 3000, restEnd = None\<rparr>]\<rparr>],
          active = \<lparr>a_setStart = None, a_restStart = Some 3000\<rparr>\<rparr>"
    by code_simp
  show ?thesis using C1_phase_matches_active [OF r] r by simp
qed

text \<open>
  Claim C9. In every state reached from the initial one by any sequence of the seven
  operations, \<open>currentExerciseIndex\<close> is \<open>exercises.length - 1\<close>: the current exercise
  is the one appended last.
\<close>

theorem C9_current_is_last:
  "run newWorkout os = Inr w \<Longrightarrow>
   int (currentExerciseIndex w) = int (length (exercises w)) - 1"
proof -
  assume r: "run newWorkout os = Inr w"
  have "currentIsLast w"
    using run_inv [of newWorkout os] newWorkout_inv r by auto
  then show ?thesis
    by (simp add: currentIsLast_def)
qed


text \<open>C9 after two advances: three exercises, the third one current.\<close>

theorem C9_current_is_last_witness:
  "run newWorkout [Start 5, NextExercise 6, NextExercise 7] =
     Inr \<lparr>startTime = Some 5, exerciseStartTime = None, endTime = None,
          phase = READY, currentExerciseIndex = 2,
          exercises = [\<lparr>ex_id = ''ex-1'', ex_name = ''Exercise 1'', sets = []\<rparr>,
                       \<lparr>ex_id = ''ex-2'', ex_name = ''Exercise 2'', sets = []\<rparr>,
                       \<lparr>ex_id = ''ex-3'', ex_name = ''Exercise 3'', sets = []\<rparr>],
          active = \<lparr>a_setStart = None, a_restStart = None\<rparr>\<rparr> \<and>
   int 2 = int (length [1 :: nat, 2, 3]) - 1"
proof -
  have r: "run newWorkout [Start 5, NextExercise 6, NextExercise 7] =
     Inr \<lparr>startTime = Some 5, exerciseStartTime = None, endTime = None,
          phase = READY, currentExerciseIndex = 2,
          exercises = [\<lparr>ex_id = ''ex-1'', ex_name = ''Exercise 1'', sets = []\<rparr>,
                       \<lparr>ex_id = ''ex-2'', ex_name = ''Exercise 2'', sets = []\<rparr>,
                       \<lparr>ex_id = ''ex-3'', ex_name = ''Exercise 3'', sets = []\<rparr>],
          active = \<lparr>a_setStart = None, a_restStart = None\<rparr>\<rparr>"
    by code_simp
  show ?thesis using C9_current_is_last [OF r] r by simp
qed

subsection \<open>The derived values of a new session\<close>

lemma getSetCountForDisplay_newWorkout: "getSetCountForDisplay newWorkout = Inr 0"
  by (simp add: getSetCountForDisplay_def currentExercise_def newWorkout_def)

lemma exerciseTotals_empty: "sets ex = [] \<Longrightarrow> exerciseTotals ex = (0, 0)"
  by (simp add: exerciseTotals_def)

subsection \<open>A timestamp of zero counts as absent in the guards\<close>

text \<open>
  The handlers decide "started" and "ended" by the truthiness of \<^verbatim>\<open>startTime\<close> and
  \<^verbatim>\<open>endTime\<close>, so a session whose clock reads 0 at \<^verbatim>\<open>start()\<close> stays unstarted for
  every later operation. The evaluations below run the code at such a clock; the lemmas
  next to them show that the same sequences behave as described as soon as the start
  timestamp is not 0.
\<close>

lemmas op_defs =
  startWorkout_def startSet_def endSetStartRest_def endRestStartSet_def
  nextExercise_def nextExerciseClose_def finishWorkout_def finishClose_def resetAll_def
  currentExercise_def putSets_def setLastRestEnd_def freshExercise_def
  truthy_def nullish_or_def noActive_def newWorkout_def

lemma string_of_nat_2: "string_of_nat (Suc (Suc 0)) = ''2''"
  by code_simp

text \<open>
  Claim C7. The scenario \<^verbatim>\<open>start()\<close> at 0, \<^verbatim>\<open>startSet()\<close> at 0, \<^verbatim>\<open>endSetStartRest()\<close>
  at 10000, \<^verbatim>\<open>endRestStartSet()\<close> at 40000, \<^verbatim>\<open>finish()\<close> at 50000 is expected to end
  with two set records and the totals 20000, 30000 and 50000. On the code the start
  time 0 is falsy: the four later operations return at their guard, no set is logged,
  \<^verbatim>\<open>endTime\<close> stays \<^verbatim>\<open>null\<close> and the totals read at 50000 are all 0.
\<close>

theorem C7_basic_cycle_at_zero:
  "run newWorkout
     [Start 0, StartSet 0, EndSetStartRest 10000, EndRestStartSet 40000, Finish 50000 50000] =
     Inr \<lparr>startTime = Some 0, exerciseStartTime = None, endTime = None,
          phase = READY, currentExerciseIndex = 0,
          exercises = [\<lparr>ex_id = ''ex-1'', ex_name = ''Exercise 1'', sets = []\<rparr>],
          active = \<lparr>a_setStart = None, a_restStart = None\<rparr>\<rparr> \<and>
   calcTotals \<lparr>startTime = Some 0, exerciseStartTime = None, endTime = None,
          phase = READY, currentExerciseIndex = 0,
          exercises = [\<lparr>ex_id = ''ex-1'', ex_name = ''Exercise 1'', sets = []\<rparr>],
          active = \<lparr>a_setStart = None, a_restStart = None\<rparr>\<rparr> 50000 =
     \<lparr>workMs = 0, restMs = 0, gymMs = 0\<rparr>"
  by code_simp

text \<open>The same scenario started at any \<open>T\<close> other than 0 gives the two records (lift
  10000 and rest 30000, then lift 10000 and rest 0) and the expected totals.\<close>

lemma basic_cycle_shifted:
  assumes "T \<noteq> 0"
  shows "run newWorkout
     [Start T, StartSet T, EndSetStartRest (T + 10000), EndRestStartSet (T + 40000),
      Finish (T + 50000) (T + 50000)] =
     Inr \<lparr>startTime = Some T, exerciseStartTime = Some T, endTime = Some (T + 50000),
          phase = READY, currentExerciseIndex = 0,
          exercises = [\<lparr>ex_id = ''ex-1'', ex_name = ''Exercise 1'',
            sets = [\<lparr>setStart = Some T, setEnd = Some (T + 10000),
                     restStart = Some (T + 10000), restEnd = Some (T + 40000)\<rparr>,
                    \<lparr>setStart = Some (T + 40000), setEnd = Some (T + 50000),
                     restStart = Some (T + 50000), restEnd = Some (T + 50000)\<rparr>]\<rparr>],
          active = \<lparr>a_setStart = None, a_restStart = None\<rparr>\<rparr>"
  using assms by (simp add: op_defs Let_def)

lemma basic_cycle_shifted_totals:
  assumes "T \<noteq> 0"
  shows "calcTotals \<lparr>startTime = Some T, exerciseStartTime = Some T, endTime = Some (T + 50000),
          phase = READY, currentExerciseIndex = 0,
          exercises = [\<lparr>ex_id = ''ex-1'', ex_name = ''Exercise 1'',
            sets = [\<lparr>setStart = Some T, setEnd = Some (T + 10000),
                     restStart = Some (T + 10000), restEnd = Some (T + 40000)\<rparr>,
                    \<lparr>setStart = Some (T + 40000), setEnd = Some (T + 50000),
                     restStart = Some (T + 50000), restEnd = Some (T + 50000)\<rparr>]\<rparr>],
          active = \<lparr>a_setStart = None, a_restStart = None\<rparr>\<rparr> n =
     \<lparr>workMs = 20000, restMs = 30000, gymMs = 50000\<rparr>"
  using assms by (simp add: calcTotals_def nullish_or_def)

text \<open>
  Claim C3. \<^verbatim>\<open>finish()\<close> in phase IN_SET appends a record whose rest starts and ends at
  the same instant, and \<^verbatim>\<open>start()\<close>, \<^verbatim>\<open>startSet()\<close>, \<^verbatim>\<open>finish()\<close> is expected to leave
  exactly one such record. With the clock at 0 for \<^verbatim>\<open>start()\<close> (and at 1000 and 5000
  for the two later operations) the session never leaves READY and the sequence leaves
  no record at all.
\<close>

theorem C3_finish_after_zero_start:
  "run newWorkout [Start 0, StartSet 1000, Finish 5000 5000] =
     Inr \<lparr>startTime = Some 0, exerciseStartTime = None, endTime = None,
          phase = READY, currentExerciseIndex = 0,
          exercises = [\<lparr>ex_id = ''ex-1'', ex_name = ''Exercise 1'', sets = []\<rparr>],
          active = \<lparr>a_setStart = None, a_restStart = None\<rparr>\<rparr>"
  by code_simp

text \<open>Where the guard of \<^verbatim>\<open>finishWorkout\<close> lets it through, the record appended in
  phase IN_SET has \<open>setEnd\<close>, \<open>restStart\<close> and \<open>restEnd\<close> all equal to the time read.\<close>

lemma finish_in_set:
  assumes "phase w = IN_SET" "truthy (startTime w)" "\<not> truthy (endTime w)"
    and "currentExercise w = Inr ex"
  shows "finishWorkout w t te =
     Inr (w\<lparr>exercises := putSets w ex (sets ex @
              [\<lparr>setStart = Some (nullish_or (a_setStart (active w)) t), setEnd = Some t,
                restStart = Some t, restEnd = Some t\<rparr>]),
            active := noActive, phase := READY, endTime := Some te\<rparr>)"
  using assms by (simp add: finishWorkout_def finishClose_def Let_def)

lemma start_set_finish:
  assumes "t0 \<noteq> 0"
  shows "run newWorkout [Start t0, StartSet t1, Finish t2 t3] =
     Inr \<lparr>startTime = Some t0, exerciseStartTime = Some t1, endTime = Some t3,
          phase = READY, currentExerciseIndex = 0,
          exercises = [\<lparr>ex_id = ''ex-1'', ex_name = ''Exercise 1'',
            sets = [\<lparr>setStart = Some t1, setEnd = Some t2,
                     restStart = Some t2, restEnd = Some t2\<rparr>]\<rparr>],
          active = \<lparr>a_setStart = None, a_restStart = None\<rparr>\<rparr>"
  using assms by (simp add: op_defs Let_def)

text \<open>
  Claim C4. \<^verbatim>\<open>start()\<close>, \<^verbatim>\<open>startSet()\<close>, \<^verbatim>\<open>nextExercise()\<close> is expected to leave one
  record without rest in exercise 1 and a fresh second exercise as the current one.
  With the clock at 0 for \<^verbatim>\<open>start()\<close> both later operations (at 1000 and 5000)
  return at their guard: exercise 1 has no record and stays the only, current exercise.
\<close>

theorem C4_next_after_zero_start:
  "run newWorkout [Start 0, StartSet 1000, NextExercise 5000] =
     Inr \<lparr>startTime = Some 0, exerciseStartTime = None, endTime = None,
          phase = READY, currentExerciseIndex = 0,
          exercises = [\<lparr>ex_id = ''ex-1'', ex_name = ''Exercise 1'', sets = []\<rparr>],
          active = \<lparr>a_setStart = None, a_restStart = None\<rparr>\<rparr>"
  by code_simp

text \<open>Started at any time other than 0, the sequence closes the set without a rest and
  moves to a fresh exercise 2, READY, with no exercise timer.\<close>

lemma start_set_next:
  assumes "t0 \<noteq> 0"
  shows "run newWorkout [Start t0, StartSet t1, NextExercise t2] =
     Inr \<lparr>startTime = Some t0, exerciseStartTime = None, endTime = None,
          phase = READY, currentExerciseIndex = 1,
          exercises = [\<lparr>ex_id = ''ex-1'', ex_name = ''Exercise 1'',
            sets = [\<lparr>setStart = Some t1, setEnd = Some t2,
                     restStart = None, restEnd = None\<rparr>]\<rparr>,
            \<lparr>ex_id = ''ex-2'', ex_name = ''Exercise 2'', sets = []\<rparr>],
          active = \<lparr>a_setStart = None, a_restStart = None\<rparr>\<rparr>"
  using assms by (simp add: op_defs Let_def string_of_nat_2)

text \<open>
  Claim C5. An operation whose precondition fails is expected to return the state
  unchanged; in particular \<^verbatim>\<open>start()\<close> when \<^verbatim>\<open>startTime\<close> is present. After a
  \<^verbatim>\<open>start()\<close> at 0 the start time is present (it is 0, not \<^verbatim>\<open>null\<close>), yet a second
  \<^verbatim>\<open>start()\<close> at 5 passes the guard and overwrites it.
\<close>

theorem C5_restart_after_zero_start:
  "startTime (startWorkout newWorkout 0) = Some 0 \<and>
   startWorkout (startWorkout newWorkout 0) 5 \<noteq> startWorkout newWorkout 0 \<and>
   startTime (startWorkout (startWorkout newWorkout 0) 5) = Some 5"
  by (simp add: startWorkout_def newWorkout_def truthy_def noActive_def)

text \<open>With the preconditions read as the guards test them (truthiness), every failed
  precondition returns the state as it is, and nothing is thrown.\<close>

lemma guards_absorb:
  "truthy (startTime w) \<Longrightarrow> startWorkout w t = w"
  "\<not> truthy (startTime w) \<or> truthy (endTime w) \<or> phase w \<noteq> READY \<Longrightarrow> startSet w t = w"
  "\<not> truthy (startTime w) \<or> truthy (endTime w) \<or> phase w \<noteq> IN_SET \<Longrightarrow>
     endSetStartRest w t = Inr w"
  "\<not> truthy (startTime w) \<or> truthy (endTime w) \<or> phase w \<noteq> IN_REST \<Longrightarrow>
     endRestStartSet w t = Inr w"
  "currentExercise w = Inr ex \<Longrightarrow> sets ex = [] \<Longrightarrow> endRestStartSet w t = Inr w"
  "\<not> truthy (startTime w) \<or> truthy (endTime w) \<Longrightarrow> nextExercise w t = Inr w"
  "\<not> truthy (startTime w) \<or> truthy (endTime w) \<Longrightarrow> finishWorkout w t te = Inr w"
  by (auto simp: startWorkout_def startSet_def endSetStartRest_def endRestStartSet_def
        nextExercise_def finishWorkout_def)

text \<open>From any state, when the first \<^verbatim>\<open>finish()\<close> stores an end time other than 0 (or
  is itself absorbed), a second one returns its result unchanged.\<close>

lemma finish_twice:
  assumes "finishWorkout w t te = Inr w1" "te \<noteq> 0"
  shows "finishWorkout w1 t' te' = Inr w1"
proof (cases "\<not> truthy (startTime w) \<or> truthy (endTime w)")
  case True
  then have "w1 = w" using assms(1) by (simp add: finishWorkout_def)
  with True show ?thesis by (simp add: finishWorkout_def)
next
  case False
  then have "truthy (endTime w1)"
    using assms by (auto simp: finishWorkout_def truthy_def split: sum.splits)
  then show ?thesis by (simp add: finishWorkout_def)
qed

subsection \<open>The logged time never exceeds the time in the gym\<close>

lemma setsLoop_sums:
  "setsLoop ss (wk, rs) =
     (wk + sum_list (map setLiftMs ss), rs + sum_list (map setRestMs ss))"
  by (induction ss arbitrary: wk rs)
     (auto simp: setLiftMs_def setRestMs_def split: option.splits)

lemma exercisesLoop_sums:
  "exercisesLoop exs (wk, rs) =
     (wk + sum_list (map (\<lambda>ex. sum_list (map setLiftMs (sets ex))) exs),
      rs + sum_list (map (\<lambda>ex. sum_list (map setRestMs (sets ex))) exs))"
  by (induction exs arbitrary: wk rs) (auto simp: setsLoop_sums)

lemma sum_list_split: "sum_list (map (\<lambda>s. f s + g s) xs) = sum_list (map f xs) + (sum_list (map g xs) :: int)"
  by (induction xs) auto

lemma accounted_calcTotals:
  "workMs (calcTotals w n) + restMs (calcTotals w n) = accounted w"
proof -
  have "sum_list (map exerciseMs exs) =
        sum_list (map (\<lambda>ex. sum_list (map setLiftMs (sets ex))) exs) +
        sum_list (map (\<lambda>ex. sum_list (map setRestMs (sets ex))) exs)" for exs
    by (induction exs) (auto simp: exerciseMs_def sum_list_split)
  then show ?thesis
    by (simp add: calcTotals_def exercisesLoop_sums accounted_def Let_def)
qed

lemma gymMs_calcTotals:
  "endTime w = Some e \<Longrightarrow> startTime w = Some st \<Longrightarrow> st \<noteq> 0 \<Longrightarrow> gymMs (calcTotals w n) = e - st"
  by (simp add: calcTotals_def exercisesLoop_sums nullish_or_def Let_def)

lemma gymMs_calcTotals_unstarted:
  "\<not> truthy (startTime w) \<Longrightarrow> gymMs (calcTotals w n) = 0"
  by (auto simp: calcTotals_def exercisesLoop_sums truthy_def Let_def split: option.splits)

text \<open>With the current exercise last, the list of exercises splits at it.\<close>

lemma last_split:
  assumes "currentIsLast w"
  shows "exercises w = butlast (exercises w) @ [last (exercises w)]"
    and "currentExerciseIndex w = length (butlast (exercises w))"
    and "currentExercise w = Inr (last (exercises w))"
proof -
  have ne: "exercises w \<noteq> []" using assms by (auto simp: currentIsLast_def)
  then show "exercises w = butlast (exercises w) @ [last (exercises w)]" by simp
  show i: "currentExerciseIndex w = length (butlast (exercises w))"
    using assms by (simp add: currentIsLast_def)
  have "currentExerciseIndex w = length (exercises w) - 1"
    using assms unfolding currentIsLast_def by arith
  then have "exercises w ! currentExerciseIndex w = last (exercises w)"
    using ne by (simp add: last_conv_nth)
  then show "currentExercise w = Inr (last (exercises w))"
    using assms by (simp add: currentExercise_def currentIsLast_def)
qed

lemma putSets_last:
  assumes "currentIsLast w"
  shows "putSets w ex ss = butlast (exercises w) @ [ex\<lparr>sets := ss\<rparr>]"
proof -
  have "(butlast (exercises w) @ [last (exercises w)])[length (butlast (exercises w)) := ex\<lparr>sets := ss\<rparr>]
        = butlast (exercises w) @ [ex\<lparr>sets := ss\<rparr>]"
    by (simp add: list_update_append)
  then show ?thesis
    using last_split(1,2) [OF assms] by (simp add: putSets_def)
qed

lemma accounted_split:
  assumes "currentIsLast w"
  shows "accounted w = sum_list (map exerciseMs (butlast (exercises w))) + exerciseMs (last (exercises w))"
proof -
  have "sum_list (map exerciseMs (butlast (exercises w) @ [last (exercises w)])) =
        sum_list (map exerciseMs (butlast (exercises w))) + exerciseMs (last (exercises w))"
    by simp
  then show ?thesis using last_split(1) [OF assms] by (simp add: accounted_def)
qed

lemma accounted_putSets:
  assumes "currentIsLast w"
  shows "sum_list (map exerciseMs (putSets w (last (exercises w)) ss)) =
         accounted w - exerciseMs (last (exercises w)) + sum_list (map (\<lambda>s. setLiftMs s + setRestMs s) ss)"
  by (simp add: putSets_last [OF assms] accounted_split [OF assms] exerciseMs_def)

lemma last_putSets:
  assumes "currentIsLast w"
  shows "last (putSets w ex ss) = ex\<lparr>sets := ss\<rparr>"
  by (simp add: putSets_last [OF assms])

lemma length_putSets: "length (putSets w ex ss) = length (exercises w)"
  by (simp add: putSets_def)

lemma setLastRestEnd_last:
  "ss \<noteq> [] \<Longrightarrow> setLastRestEnd ss v = butlast ss @ [(last ss)\<lparr>restEnd := v\<rparr>]"
proof -
  assume ne: "ss \<noteq> []"
  then have a: "ss = butlast ss @ [last ss]" by simp
  have b: "ss ! (length ss - 1) = last ss" using ne by (simp add: last_conv_nth)
  have "(butlast ss @ [last ss])[length (butlast ss) := (last ss)\<lparr>restEnd := v\<rparr>] =
        butlast ss @ [(last ss)\<lparr>restEnd := v\<rparr>]"
    by (simp add: list_update_append)
  then show ?thesis using a b by (simp add: setLastRestEnd_def)
qed

lemma closeRest_sum:
  assumes "openRest r ss"
  shows "sum_list (map (\<lambda>s. setLiftMs s + setRestMs s) (setLastRestEnd ss (Some t))) =
         sum_list (map (\<lambda>s. setLiftMs s + setRestMs s) ss) + (t - r)"
proof -
  have ne: "ss \<noteq> []" and rs: "restStart (last ss) = Some r" and re: "restEnd (last ss) = None"
    using assms by (auto simp: openRest_def)
  have "sum_list (map (\<lambda>s. setLiftMs s + setRestMs s) (butlast ss @ [last ss])) =
        sum_list (map (\<lambda>s. setLiftMs s + setRestMs s) (butlast ss)) + setLiftMs (last ss)"
    using rs re by (simp add: setRestMs_def)
  then have "sum_list (map (\<lambda>s. setLiftMs s + setRestMs s) ss) =
        sum_list (map (\<lambda>s. setLiftMs s + setRestMs s) (butlast ss)) + setLiftMs (last ss)"
    using ne by simp
  moreover have "setLiftMs ((last ss)\<lparr>restEnd := Some t\<rparr>) = setLiftMs (last ss)"
    by (simp add: setLiftMs_def)
  moreover have "setRestMs ((last ss)\<lparr>restEnd := Some t\<rparr>) = t - r"
    using rs by (simp add: setRestMs_def)
  ultimately show ?thesis
    by (simp add: setLastRestEnd_last [OF ne])
qed


lemma accounted_eq: "exercises w' = exs \<Longrightarrow> accounted w' = sum_list (map exerciseMs exs)"
  by (simp add: accounted_def)

text \<open>The bound may only grow.\<close>

lemma timed_mono: "timed T w \<Longrightarrow> T \<le> T' \<Longrightarrow> timed T' w"
  by (auto simp: timed_def split: option.splits Phase.splits if_splits)

lemma timed_newWorkout: "timed T newWorkout"
  by (simp add: timed_def newWorkout_def currentIsLast_def accounted_def exerciseMs_def)

lemma timed_startWorkout:
  assumes "timed T w" "T \<le> t"
  shows "timed t (startWorkout w t)"
proof (cases "truthy (startTime w)")
  case True
  then show ?thesis using timed_mono [OF assms(1,2)] by (simp add: startWorkout_def)
next
  case False
  then have "accounted w = 0" "currentIsLast w"
    using assms(1) by (auto simp: timed_def truthy_def split: option.splits if_splits)
  then show ?thesis
    using False
    by (simp add: startWorkout_def timed_def currentIsLast_def accounted_def)
qed

lemma timed_startSet:
  assumes "timed T w" "T \<le> t"
  shows "timed t (startSet w t)"
proof (cases "\<not> truthy (startTime w) \<or> truthy (endTime w) \<or> phase w \<noteq> READY")
  case True
  then show ?thesis using timed_mono [OF assms] by (simp add: startSet_def)
next
  case False
  then show ?thesis
    using assms
    by (auto simp: startSet_def timed_def currentIsLast_def accounted_def truthy_def Let_def
          split: option.splits if_splits)
qed


text \<open>What the invariant says of a session that is started and not ended.\<close>

lemma timed_running:
  assumes "timed T w" "truthy (startTime w)" "\<not> truthy (endTime w)"
  obtains st where "startTime w = Some st" "st \<noteq> 0" "endTime w = None" "currentIsLast w"
    "phase w = READY \<Longrightarrow> accounted w \<le> T - st"
    "phase w = IN_SET \<Longrightarrow> \<exists>a. a_setStart (active w) = Some a \<and> a \<le> T \<and> accounted w \<le> a - st"
    "phase w = IN_REST \<Longrightarrow> \<exists>r. a_restStart (active w) = Some r \<and> r \<le> T \<and>
        accounted w \<le> r - st \<and> openRest r (sets (last (exercises w)))"
proof -
  obtain st where st: "startTime w = Some st" "st \<noteq> 0"
    using assms(2) by (auto simp: truthy_def split: option.splits)
  have e: "endTime w = None"
    using assms(1,3) st by (auto simp: timed_def truthy_def split: option.splits)
  have c: "currentIsLast w" using assms(1) by (simp add: timed_def)
  show thesis
    using assms(1) st e c
    by (intro that [of st]) (auto simp: timed_def split: option.splits Phase.splits)
qed

lemma timed_endSetStartRest:
  assumes "timed T w" "T \<le> t"
  shows "\<exists>w'. endSetStartRest w t = Inr w' \<and> timed t w'"
proof (cases "\<not> truthy (startTime w) \<or> truthy (endTime w) \<or> phase w \<noteq> IN_SET")
  case True
  then show ?thesis using timed_mono [OF assms] by (simp add: endSetStartRest_def)
next
  case False
  then have g: "truthy (startTime w)" "\<not> truthy (endTime w)" "phase w = IN_SET" by auto
  from assms(1) g(1,2) obtain st a where st: "startTime w = Some st" "st \<noteq> 0" "endTime w = None"
    and cl: "currentIsLast w"
    and a: "a_setStart (active w) = Some a" "a \<le> T" "accounted w \<le> a - st"
    using g(3) by (elim timed_running) auto
  let ?cur = "last (exercises w)"
  let ?ss = "sets ?cur @ [\<lparr>setStart = a_setStart (active w), setEnd = Some t,
                restStart = Some t, restEnd = None\<rparr>]"
  let ?w' = "w\<lparr>exercises := putSets w ?cur ?ss, phase := IN_REST,
                active := \<lparr>a_setStart = None, a_restStart = Some t\<rparr>\<rparr>"
  have step: "endSetStartRest w t = Inr ?w'"
    using g last_split(3) [OF cl] by (simp add: endSetStartRest_def Let_def)
  have "accounted ?w' = sum_list (map exerciseMs (putSets w ?cur ?ss))"
    by (rule accounted_eq) simp
  then have acc: "accounted ?w' = accounted w + (t - a)"
    using a(1)
    by (simp add: accounted_putSets [OF cl] exerciseMs_def setLiftMs_def setRestMs_def)
  have "timed t ?w'"
    using st cl a assms(2) acc
    by (simp add: timed_def currentIsLast_def length_putSets last_putSets [OF cl] openRest_def)
  with step show ?thesis by blast
qed

lemma timed_endRestStartSet:
  assumes "timed T w" "T \<le> t"
  shows "\<exists>w'. endRestStartSet w t = Inr w' \<and> timed t w'"
proof (cases "\<not> truthy (startTime w) \<or> truthy (endTime w) \<or> phase w \<noteq> IN_REST")
  case True
  then show ?thesis using timed_mono [OF assms] by (simp add: endRestStartSet_def)
next
  case False
  then have g: "truthy (startTime w)" "\<not> truthy (endTime w)" "phase w = IN_REST" by auto
  from assms(1) g(1,2) obtain st r where st: "startTime w = Some st" "st \<noteq> 0" "endTime w = None"
    and cl: "currentIsLast w"
    and r: "a_restStart (active w) = Some r" "r \<le> T" "accounted w \<le> r - st"
       "openRest r (sets (last (exercises w)))"
    using g(3) by (elim timed_running) auto
  let ?cur = "last (exercises w)"
  let ?ss = "setLastRestEnd (sets ?cur) (Some t)"
  let ?w' = "w\<lparr>exercises := putSets w ?cur ?ss, phase := IN_SET,
                active := \<lparr>a_setStart = Some t, a_restStart = None\<rparr>\<rparr>"
  have ne: "sets ?cur \<noteq> []" using r(4) by (simp add: openRest_def)
  have step: "endRestStartSet w t = Inr ?w'"
    using g ne last_split(3) [OF cl] by (simp add: endRestStartSet_def Let_def)
  have "accounted ?w' = sum_list (map exerciseMs (putSets w ?cur ?ss))"
    by (rule accounted_eq) simp
  then have acc: "accounted ?w' = accounted w + (t - r)"
    by (simp add: accounted_putSets [OF cl] closeRest_sum [OF r(4)] exerciseMs_def)
  have "timed t ?w'"
    using st cl r assms(2) acc
    by (simp add: timed_def currentIsLast_def length_putSets)
  with step show ?thesis by blast
qed


lemma exerciseMs_freshExercise: "exerciseMs (freshExercise n) = 0"
  by (simp add: exerciseMs_def freshExercise_def)

lemma close_nextExercise:
  assumes "timed T w" "T \<le> t" "truthy (startTime w)" "\<not> truthy (endTime w)"
  shows "\<exists>w1. nextExerciseClose w t = Inr w1 \<and> startTime w1 = startTime w \<and>
           endTime w1 = endTime w \<and>
           length (exercises w1) = length (exercises w) \<and>
           accounted w1 \<le> t - the (startTime w)"
proof -
  from assms(1,3,4) obtain st where st: "startTime w = Some st" "st \<noteq> 0" "endTime w = None"
    and cl: "currentIsLast w"
    and ready: "phase w = READY \<Longrightarrow> accounted w \<le> T - st"
    and inset: "phase w = IN_SET \<Longrightarrow>
        \<exists>a. a_setStart (active w) = Some a \<and> a \<le> T \<and> accounted w \<le> a - st"
    and inrest: "phase w = IN_REST \<Longrightarrow> \<exists>r. a_restStart (active w) = Some r \<and> r \<le> T \<and>
        accounted w \<le> r - st \<and> openRest r (sets (last (exercises w)))"
    by (elim timed_running) auto
  let ?cur = "last (exercises w)"
  show ?thesis
  proof (cases "phase w")
    case READY
    then show ?thesis
      using ready assms(2) st by (simp add: nextExerciseClose_def)
  next
    case IN_SET
    then obtain a where a: "a_setStart (active w) = Some a" "a \<le> T" "accounted w \<le> a - st"
      using inset by blast
    let ?ss = "sets ?cur @ [\<lparr>setStart = Some (nullish_or (a_setStart (active w)) t),
                 setEnd = Some t, restStart = None, restEnd = None\<rparr>]"
    let ?w1 = "w\<lparr>exercises := putSets w ?cur ?ss, active := noActive, phase := READY\<rparr>"
    have step: "nextExerciseClose w t = Inr ?w1"
      using IN_SET last_split(3) [OF cl] by (simp add: nextExerciseClose_def Let_def)
    have "accounted ?w1 = sum_list (map exerciseMs (putSets w ?cur ?ss))"
      by (rule accounted_eq) simp
    then have "accounted ?w1 = accounted w + (t - a)"
      using a(1)
      by (simp add: accounted_putSets [OF cl] exerciseMs_def setLiftMs_def setRestMs_def
            nullish_or_def)
    then show ?thesis
      using step a st assms(2) by (simp add: length_putSets)
  next
    case IN_REST
    then obtain r where r: "a_restStart (active w) = Some r" "r \<le> T" "accounted w \<le> r - st"
        "openRest r (sets ?cur)"
      using inrest by blast
    have ne: "sets ?cur \<noteq> []" and re: "restEnd (last (sets ?cur)) = None"
      using r(4) by (simp_all add: openRest_def)
    have lst: "sets ?cur ! (length (sets ?cur) - 1) = last (sets ?cur)"
      using ne by (simp add: last_conv_nth)
    let ?ss = "setLastRestEnd (sets ?cur) (Some t)"
    let ?w1 = "w\<lparr>exercises := putSets w ?cur ?ss, active := noActive, phase := READY\<rparr>"
    have step: "nextExerciseClose w t = Inr ?w1"
      using IN_REST ne re lst last_split(3) [OF cl]
      by (simp add: nextExerciseClose_def Let_def nullish_or_def)
    have "accounted ?w1 = sum_list (map exerciseMs (putSets w ?cur ?ss))"
      by (rule accounted_eq) simp
    then have "accounted ?w1 = accounted w + (t - r)"
      by (simp add: accounted_putSets [OF cl] closeRest_sum [OF r(4)] exerciseMs_def)
    then show ?thesis
      using step r st assms(2) by (simp add: length_putSets)
  qed
qed

lemma timed_nextExercise:
  assumes "timed T w" "T \<le> t"
  shows "\<exists>w'. nextExercise w t = Inr w' \<and> timed t w'"
proof (cases "\<not> truthy (startTime w) \<or> truthy (endTime w)")
  case True
  then show ?thesis using timed_mono [OF assms] by (simp add: nextExercise_def)
next
  case False
  then have g: "truthy (startTime w)" "\<not> truthy (endTime w)" by auto
  from assms(1) g obtain st where st: "startTime w = Some st" "st \<noteq> 0" "endTime w = None"
    by (elim timed_running) auto
  obtain w1 where w1: "nextExerciseClose w t = Inr w1" "startTime w1 = startTime w"
      "endTime w1 = endTime w" "accounted w1 \<le> t - st"
    using close_nextExercise [OF assms g] st by auto
  let ?exs = "exercises w1 @ [freshExercise (length (exercises w1))]"
  let ?w' = "w1\<lparr>exercises := ?exs, currentExerciseIndex := length ?exs - 1,
                exerciseStartTime := None, phase := READY, active := noActive\<rparr>"
  have step: "nextExercise w t = Inr ?w'"
    using g w1(1) by (simp add: nextExercise_def Let_def)
  have "accounted ?w' = sum_list (map exerciseMs ?exs)"
    by (rule accounted_eq) simp
  then have "accounted ?w' = accounted w1"
    by (simp add: exerciseMs_freshExercise accounted_def)
  then have "timed t ?w'"
    using w1 st assms(2) by (simp add: timed_def currentIsLast_def)
  with step show ?thesis by blast
qed

lemma close_finish:
  assumes "timed T w" "T \<le> t" "truthy (startTime w)" "\<not> truthy (endTime w)"
  shows "\<exists>w1. finishClose w t = Inr w1 \<and> startTime w1 = startTime w \<and>
           currentIsLast w1 \<and> accounted w1 \<le> t - the (startTime w)"
proof -
  from assms(1,3,4) obtain st where st: "startTime w = Some st" "st \<noteq> 0" "endTime w = None"
    and cl: "currentIsLast w"
    and ready: "phase w = READY \<Longrightarrow> accounted w \<le> T - st"
    and inset: "phase w = IN_SET \<Longrightarrow>
        \<exists>a. a_setStart (active w) = Some a \<and> a \<le> T \<and> accounted w \<le> a - st"
    and inrest: "phase w = IN_REST \<Longrightarrow> \<exists>r. a_restStart (active w) = Some r \<and> r \<le> T \<and>
        accounted w \<le> r - st \<and> openRest r (sets (last (exercises w)))"
    by (elim timed_running) auto
  let ?cur = "last (exercises w)"
  show ?thesis
  proof (cases "phase w")
    case READY
    then show ?thesis
      using ready assms(2) st cl by (simp add: finishClose_def)
  next
    case IN_SET
    then obtain a where a: "a_setStart (active w) = Some a" "a \<le> T" "accounted w \<le> a - st"
      using inset by blast
    let ?ss = "sets ?cur @ [\<lparr>setStart = Some (nullish_or (a_setStart (active w)) t),
                 setEnd = Some t, restStart = Some t, restEnd = Some t\<rparr>]"
    let ?w1 = "w\<lparr>exercises := putSets w ?cur ?ss\<rparr>"
    have step: "finishClose w t = Inr ?w1"
      using IN_SET last_split(3) [OF cl] by (simp add: finishClose_def Let_def)
    have "accounted ?w1 = sum_list (map exerciseMs (putSets w ?cur ?ss))"
      by (rule accounted_eq) simp
    then have "accounted ?w1 = accounted w + (t - a)"
      using a(1)
      by (simp add: accounted_putSets [OF cl] exerciseMs_def setLiftMs_def setRestMs_def
            nullish_or_def)
    then show ?thesis
      using step a st assms(2) cl by (simp add: length_putSets currentIsLast_def)
  next
    case IN_REST
    then obtain r where r: "a_restStart (active w) = Some r" "r \<le> T" "accounted w \<le> r - st"
        "openRest r (sets ?cur)"
      using inrest by blast
    have ne: "sets ?cur \<noteq> []" and re: "restEnd (last (sets ?cur)) = None"
      and rs: "restStart (last (sets ?cur)) = Some r"
      using r(4) by (simp_all add: openRest_def)
    have lst: "sets ?cur ! (length (sets ?cur) - 1) = last (sets ?cur)"
      using ne by (simp add: last_conv_nth)
    let ?ss = "setLastRestEnd (sets ?cur) (Some t)"
    let ?w1 = "w\<lparr>exercises := putSets w ?cur ?ss\<rparr>"
    have step: "finishClose w t = Inr ?w1"
      using IN_REST ne re rs lst last_split(3) [OF cl]
      by (simp add: finishClose_def Let_def)
    have "accounted ?w1 = sum_list (map exerciseMs (putSets w ?cur ?ss))"
      by (rule accounted_eq) simp
    then have "accounted ?w1 = accounted w + (t - r)"
      by (simp add: accounted_putSets [OF cl] closeRest_sum [OF r(4)] exerciseMs_def)
    then show ?thesis
      using step r st assms(2) cl by (simp add: length_putSets currentIsLast_def)
  qed
qed

lemma timed_finishWorkout:
  assumes "timed T w" "T \<le> t" "t \<le> te" "te \<noteq> 0"
  shows "\<exists>w'. finishWorkout w t te = Inr w' \<and> timed te w'"
proof (cases "\<not> truthy (startTime w) \<or> truthy (endTime w)")
  case True
  have "T \<le> te" using assms(2,3) by simp
  then show ?thesis using True timed_mono [OF assms(1)] by (simp add: finishWorkout_def)
next
  case False
  then have g: "truthy (startTime w)" "\<not> truthy (endTime w)" by auto
  from assms(1) g obtain st where st: "startTime w = Some st" "st \<noteq> 0" "endTime w = None"
    by (elim timed_running) auto
  obtain w1 where w1: "finishClose w t = Inr w1" "startTime w1 = startTime w"
      "currentIsLast w1" "accounted w1 \<le> t - st"
    using close_finish [OF assms(1,2) g] st by auto
  let ?w' = "w1\<lparr>active := noActive, phase := READY, endTime := Some te\<rparr>"
  have step: "finishWorkout w t te = Inr ?w'"
    using g w1(1) by (simp add: finishWorkout_def)
  have "accounted ?w' = accounted w1"
    by (simp add: accounted_def)
  then have "timed te ?w'"
    using w1 st assms(3,4) by (simp add: timed_def currentIsLast_def)
  with step show ?thesis by blast
qed

lemma step_timed:
  assumes "timed T w" "sorted (T # opTimes opn)" "0 \<notin> set (opTimes opn)"
  shows "\<exists>w'. step w opn = Inr w' \<and> timed (last (T # opTimes opn)) w'"
proof (cases opn)
  case (Start t)
  then show ?thesis using timed_startWorkout [OF assms(1), of t] assms(2) by simp
next
  case (StartSet t)
  then show ?thesis using timed_startSet [OF assms(1), of t] assms(2) by simp
next
  case (EndSetStartRest t)
  then show ?thesis using timed_endSetStartRest [OF assms(1), of t] assms(2) by simp
next
  case (EndRestStartSet t)
  then show ?thesis using timed_endRestStartSet [OF assms(1), of t] assms(2) by simp
next
  case (NextExercise t)
  then show ?thesis using timed_nextExercise [OF assms(1), of t] assms(2) by simp
next
  case (Finish t te)
  then show ?thesis using timed_finishWorkout [OF assms(1), of t te] assms(2,3) by simp
next
  case Reset
  then show ?thesis using timed_newWorkout by (simp add: resetAll_def)
qed

lemma last_chain: "last (x # xs @ ys) = last (last (x # xs) # ys)"
  by (cases "ys = []") (auto simp: last_append)

lemma run_timed:
  "timed T w \<Longrightarrow> sorted (T # clock os) \<Longrightarrow> 0 \<notin> set (clock os) \<Longrightarrow>
   \<exists>w'. run w os = Inr w' \<and> timed (last (T # clock os)) w'"
proof (induction os arbitrary: w T)
  case Nil
  then show ?case by (simp add: clock_def)
next
  case (Cons o1 os)
  let ?T1 = "last (T # opTimes o1)"
  have c: "clock (o1 # os) = opTimes o1 @ clock os" by (simp add: clock_def)
  have s: "sorted ((T # opTimes o1) @ clock os)" using Cons.prems(2) c by simp
  have m: "?T1 \<in> set (T # opTimes o1)" by (rule last_in_set) simp
  from s have s1: "sorted (T # opTimes o1)"
    and s2: "sorted (clock os)"
    and s4: "\<forall>x \<in> set (T # opTimes o1). \<forall>y \<in> set (clock os). x \<le> y"
    unfolding sorted_append by blast+
  from s4 m have s3: "\<forall>y \<in> set (clock os). ?T1 \<le> y" by blast
  have z1: "0 \<notin> set (opTimes o1)" and z2: "0 \<notin> set (clock os)"
    using Cons.prems(3) c by auto
  obtain w1 where w1: "step w o1 = Inr w1" "timed ?T1 w1"
    using step_timed [OF Cons.prems(1) s1 z1] by blast
  have s5: "sorted (?T1 # clock os)" using s2 s3 by simp
  have l: "last (T # clock (o1 # os)) = last (?T1 # clock os)"
    unfolding c by (rule last_chain)
  from Cons.IH [OF w1(2) s5 z2] w1(1) l show ?case by simp
qed

text \<open>
  On a non-decreasing clock that never reads 0, a state with an end time has logged no
  more lifting and resting time than the time in the gym: away from the timestamp 0 the
  guards and the statistics agree on what is present.
\<close>

lemma totals_bounded_nonzero_clock:
  assumes "run newWorkout os = Inr w" "sorted (clock os)" "0 \<notin> set (clock os)"
    and "endTime w \<noteq> None"
  shows "workMs (calcTotals w n) + restMs (calcTotals w n) \<le> gymMs (calcTotals w n)"
proof -
  let ?T = "if clock os = [] then 0 else hd (clock os)"
  have "sorted (?T # clock os)" using assms(2) by (cases "clock os") auto
  from run_timed [OF timed_newWorkout this assms(3)] assms(1)
  obtain T' where t: "timed T' w" by auto
  obtain e where e: "endTime w = Some e" using assms(4) by auto
  show ?thesis
  proof (cases "truthy (startTime w)")
    case True
    then obtain st where st: "startTime w = Some st" "st \<noteq> 0"
      by (auto simp: truthy_def split: option.splits)
    then have "accounted w \<le> e - st" using t e by (simp add: timed_def)
    then show ?thesis
      by (simp add: accounted_calcTotals gymMs_calcTotals [OF e st])
  next
    case False
    then have "accounted w = 0"
      using t by (auto simp: timed_def truthy_def split: option.splits if_splits)
    then show ?thesis
      using False by (simp add: accounted_calcTotals gymMs_calcTotals_unstarted)
  qed
qed

text \<open>
  Claim C2. On a non-decreasing clock, a state with \<^verbatim>\<open>endTime\<close> present is expected to
  satisfy \<open>workMs + restMs \<le> gymMs\<close>. On the non-decreasing clock -5, 0, 0, 0, 100 the
  session started at -5 is finished at 0 and has the end time 0, which the guards take
  for absent; a set begun at 0 and ended at 100 is then logged after the end, and the
  totals are 100 of lifting against 5 in the gym.
\<close>

theorem C2_set_logged_after_zero_end:
  "run newWorkout [Start (- 5), Finish 0 0, StartSet 0, EndSetStartRest 100] =
     Inr \<lparr>startTime = Some (- 5), exerciseStartTime = Some 0, endTime = Some 0,
          phase = IN_REST, currentExerciseIndex = 0,
          exercises = [\<lparr>ex_id = ''ex-1'', ex_name = ''Exercise 1'',
            sets = [\<lparr>setStart = Some 0, setEnd = Some 100,
                     restStart = Some 100, restEnd = None\<rparr>]\<rparr>],
          active = \<lparr>a_setStart = None, a_restStart = Some 100\<rparr>\<rparr> \<and>
   sorted (clock [Start (- 5), Finish 0 0, StartSet 0, EndSetStartRest 100]) \<and>
   calcTotals \<lparr>startTime = Some (- 5), exerciseStartTime = Some 0, endTime = Some 0,
          phase = IN_REST, currentExerciseIndex = 0,
          exercises = [\<lparr>ex_id = ''ex-1'', ex_name = ''Exercise 1'',
            sets = [\<lparr>setStart = Some 0, setEnd = Some 100,
                     restStart = Some 100, restEnd = None\<rparr>]\<rparr>],
          active = \<lparr>a_setStart = None, a_restStart = Some 100\<rparr>\<rparr> 100 =
     \<lparr>workMs = 100, restMs = 0, gymMs = 5\<rparr>"
  by (simp add: op_defs calcTotals_def clock_def)

text \<open>
  Claim C6. A second \<^verbatim>\<open>finish()\<close> is expected to change nothing, \<^verbatim>\<open>endTime\<close> being
  present after the first. A session started at -1 and finished at 0 has the end time
  0, which the guard takes for absent: the second \<^verbatim>\<open>finish()\<close>, at 1, runs again and
  moves the end time to 1.
\<close>

theorem C6_second_finish_after_zero_end:
  "run newWorkout [Start (- 1)] =
     Inr \<lparr>startTime = Some (- 1), exerciseStartTime = None, endTime = None,
          phase = READY, currentExerciseIndex = 0,
          exercises = [\<lparr>ex_id = ''ex-1'', ex_name = ''Exercise 1'', sets = []\<rparr>],
          active = \<lparr>a_setStart = None, a_restStart = None\<rparr>\<rparr> \<and>
   run newWorkout [Start (- 1), Finish 0 0] =
     Inr \<lparr>startTime = Some (- 1), exerciseStartTime = None, endTime = Some 0,
          phase = READY, currentExerciseIndex = 0,
          exercises = [\<lparr>ex_id = ''ex-1'', ex_name = ''Exercise 1'', sets = []\<rparr>],
          active = \<lparr>a_setStart = None, a_restStart = None\<rparr>\<rparr> \<and>
   run newWorkout [Start (- 1), Finish 0 0, Finish 1 1] =
     Inr \<lparr>startTime = Some (- 1), exerciseStartTime = None, endTime = Some 1,
          phase = READY, currentExerciseIndex = 0,
          exercises = [\<lparr>ex_id = ''ex-1'', ex_name = ''Exercise 1'', sets = []\<rparr>],
          active = \<lparr>a_setStart = None, a_restStart = None\<rparr>\<rparr>"
  by (simp add: op_defs)

text \<open>
  On a reachable state, the first \<^verbatim>\<open>finish()\<close> returns, and when the end time it reads
  is not 0 a second one returns its result unchanged.
\<close>

lemma finish_idempotent_nonzero:
  assumes "run newWorkout os = Inr s" "te \<noteq> 0"
  shows "\<exists>s1. finishWorkout s t te = Inr s1 \<and> finishWorkout s1 t' te' = Inr s1"
proof -
  have "activeMatches s \<and> currentIsLast s"
    using run_inv [of newWorkout os] newWorkout_inv assms(1) by auto
  then obtain s1 where f: "finishWorkout s t te = Inr s1"
    using finishWorkout_inv [of s t te] by blast
  then show ?thesis using finish_twice [OF f assms(2)] by blast
qed

end
